theory Spec2Isabelle
  imports Complex_Main "HOL-Library.Log_Nat"
begin

section \<open>Scope matching\<close>

text \<open>
  \<^verbatim>\<open>strings.Split(s, ":")\<close>: the pieces of \<open>s\<close> between the separators. The result
  is never empty; a string with \<open>n\<close> separators has \<open>n + 1\<close> pieces.
\<close>

fun Split :: "string \<Rightarrow> char \<Rightarrow> string list" where
  "Split [] sep = [[]]"
| "Split (c # cs) sep =
     (if c = sep then [] # Split cs sep
      else (case Split cs sep of p # ps \<Rightarrow> (c # p) # ps | [] \<Rightarrow> [[c]]))"

text \<open>
  \<^verbatim>\<open>hasScopeInList\<close> of \<^verbatim>\<open>http/middleware/service_auth_remote.go\<close>: the loop
  over the held scopes returns at the first scope that is the universal wildcard, the
  required scope itself, or the resource wildcard of a required scope with two parts.
\<close>

fun hasScopeInList :: "string list \<Rightarrow> string \<Rightarrow> bool" where
  "hasScopeInList [] required = False"
| "hasScopeInList (scope # scopes) required =
     (if scope = ''*'' then True
      else if scope = required then True
      else (let parts = Split required CHR '':'' in
        if length parts = 2 \<and> scope = parts ! 0 @ '':*'' then True
        else hasScopeInList scopes required))"

text \<open>\<^verbatim>\<open>HasScope\<close> of \<^verbatim>\<open>grpc/auth_interceptor.go\<close>, the same loop in the gRPC package.\<close>

fun HasScope :: "string list \<Rightarrow> string \<Rightarrow> bool" where
  "HasScope [] required = False"
| "HasScope (scope # scopes) required =
     (if scope = ''*'' then True
      else if scope = required then True
      else (let parts = Split required CHR '':'' in
        if length parts = 2 \<and> scope = parts ! 0 @ '':*'' then True
        else HasScope scopes required))"

text \<open>
  What one held scope has to be for the loop to return true: the universal wildcard, the
  required scope, or \<open>x:*\<close> where the required scope is \<open>x:y\<close> with no further colon.
\<close>

definition scope_satisfies :: "string \<Rightarrow> string \<Rightarrow> bool" where
  "scope_satisfies scope required \<longleftrightarrow>
     scope = ''*'' \<or> scope = required \<or>
     (\<exists>x y. required = x @ '':'' @ y \<and> CHR '':'' \<notin> set x \<and> CHR '':'' \<notin> set y
        \<and> scope = x @ '':*'')"

section \<open>Time\<close>

text \<open>
  A \<^verbatim>\<open>time.Time\<close> is an instant, counted in nanoseconds from the zero \<^verbatim>\<open>Time\<close>
  (January 1, year 1), and a \<^verbatim>\<open>time.Duration\<close> is a number of nanoseconds. The
  clock is not part of the program: every function that calls \<^verbatim>\<open>time.Now()\<close>
  takes the reading as an argument.
\<close>

type_synonym Time = int
type_synonym Duration = int

definition IsZero :: "Time \<Rightarrow> bool" where
  "IsZero t \<longleftrightarrow> t = 0"

definition After :: "Time \<Rightarrow> Time \<Rightarrow> bool" where
  \<comment> \<open>\<^verbatim>\<open>t.After(u)\<close>\<close>
  "After t u \<longleftrightarrow> u < t"

definition Millisecond :: Duration where "Millisecond = 1000000"
definition Second :: Duration where "Second = 1000 * Millisecond"
definition Minute :: Duration where "Minute = 60 * Second"
definition Hour :: Duration where "Hour = 60 * Minute"

section \<open>The generic memory cache (\<^verbatim>\<open>cache/memory.go\<close>)\<close>

type_synonym bytes = "char list"

record memoryItem =
  item_value :: bytes
  item_expiresAt :: Time

record Options =
  DefaultTTL :: Duration
  KeyPrefix :: string

record MemoryCache =
  items :: "string \<rightharpoonup> memoryItem"
  options :: Options

datatype cache_error = ErrKeyNotFound | ErrKeyExpired

definition DefaultOptions :: Options where
  "DefaultOptions = \<lparr>DefaultTTL = 24 * Hour, KeyPrefix = ''''\<rparr>"

definition NewMemoryCache :: "Options \<Rightarrow> MemoryCache" where
  "NewMemoryCache opts = \<lparr>items = Map.empty, options = opts\<rparr>"

definition buildKey :: "MemoryCache \<Rightarrow> string \<Rightarrow> string" where
  "buildKey c key =
     (if KeyPrefix (options c) \<noteq> '''' then KeyPrefix (options c) @ '':'' @ key else key)"

text \<open>\<^verbatim>\<open>removeExpired\<close>, the sweep, run at the instant \<open>now\<close>.\<close>

definition removeExpired :: "MemoryCache \<Rightarrow> Time \<Rightarrow> MemoryCache" where
  "removeExpired c now =
     c\<lparr>items := (\<lambda>key. case items c key of
         None \<Rightarrow> None
       | Some item \<Rightarrow>
           if \<not> IsZero (item_expiresAt item) \<and> After now (item_expiresAt item) then None
           else Some item)\<rparr>"

definition MemoryCache_Get :: "MemoryCache \<Rightarrow> Time \<Rightarrow> string \<Rightarrow> cache_error + bytes" where
  "MemoryCache_Get c now key =
     (case items c (buildKey c key) of
        None \<Rightarrow> Inl ErrKeyNotFound
      | Some item \<Rightarrow>
          if \<not> IsZero (item_expiresAt item) \<and> After now (item_expiresAt item)
          then Inl ErrKeyExpired
          else Inr (item_value item))"

text \<open>
  \<^verbatim>\<open>Set\<close> always returns a nil error, so the model returns the cache only. A
  \<open>ttl\<close> of zero is replaced by the configured default; the item gets an expiry only
  when the resulting \<open>ttl\<close> is positive, and keeps the zero \<^verbatim>\<open>Time\<close> otherwise.
\<close>

definition MemoryCache_Set ::
  "MemoryCache \<Rightarrow> Time \<Rightarrow> string \<Rightarrow> bytes \<Rightarrow> Duration \<Rightarrow> MemoryCache" where
  "MemoryCache_Set c now key val ttl0 =
     (let ttl = (if ttl0 = 0 then DefaultTTL (options c) else ttl0);
          item = \<lparr>item_value = val, item_expiresAt = (if 0 < ttl then now + ttl else 0)\<rparr>
      in c\<lparr>items := (items c)(buildKey c key \<mapsto> item)\<rparr>)"

section \<open>The token validation caches\<close>

record TokenValidationResult =
  Valid :: bool
  ClientID :: string
  ServiceName :: string
  TenantID :: string
  UserID :: string
  Scopes :: "string list"
  ExpiresAt :: Time

record cachedTokenValidation =
  cached_result :: TokenValidationResult
  cached_expiresAt :: Time

text \<open>
  \<^verbatim>\<open>TokenValidationCache\<close> of the HTTP middleware and \<^verbatim>\<open>grpcTokenCache\<close> of the
  gRPC interceptor hold the same map; the mutex is not modelled, each method runs as one
  step.
\<close>

type_synonym TokenValidationCache = "string \<rightharpoonup> cachedTokenValidation"

definition TokenValidationCache_get ::
  "TokenValidationCache \<Rightarrow> Time \<Rightarrow> string \<Rightarrow> TokenValidationResult option" where
  "TokenValidationCache_get c now token =
     (case c token of
        None \<Rightarrow> None
      | Some cached \<Rightarrow>
          if After now (cached_expiresAt cached) then None else Some (cached_result cached))"

definition TokenValidationCache_cleanup :: "TokenValidationCache \<Rightarrow> Time \<Rightarrow> TokenValidationCache" where
  "TokenValidationCache_cleanup c now =
     (\<lambda>k. case c k of
        None \<Rightarrow> None
      | Some v \<Rightarrow> if After now (cached_expiresAt v) then None else Some v)"

text \<open>
  \<^verbatim>\<open>set\<close> reads the clock for the expiry (\<open>now\<close>) and, when the table has more than
  1000 entries, a second time inside \<^verbatim>\<open>cleanup\<close> (\<open>now'\<close>).
\<close>

definition TokenValidationCache_set ::
  "TokenValidationCache \<Rightarrow> Time \<Rightarrow> Time \<Rightarrow> string \<Rightarrow> TokenValidationResult \<Rightarrow> Duration
     \<Rightarrow> TokenValidationCache" where
  "TokenValidationCache_set c now now' token res ttl =
     (let c' = c(token \<mapsto> \<lparr>cached_result = res, cached_expiresAt = now + ttl\<rparr>)
      in if 1000 < card (dom c') then TokenValidationCache_cleanup c' now' else c')"

definition grpcTokenCache_get ::
  "TokenValidationCache \<Rightarrow> Time \<Rightarrow> string \<Rightarrow> TokenValidationResult option" where
  "grpcTokenCache_get c now token =
     (case c token of
        None \<Rightarrow> None
      | Some cached \<Rightarrow>
          if After now (cached_expiresAt cached) then None else Some (cached_result cached))"

definition grpcTokenCache_cleanup :: "TokenValidationCache \<Rightarrow> Time \<Rightarrow> TokenValidationCache" where
  "grpcTokenCache_cleanup c now =
     (\<lambda>k. case c k of
        None \<Rightarrow> None
      | Some v \<Rightarrow> if After now (cached_expiresAt v) then None else Some v)"

definition grpcTokenCache_set ::
  "TokenValidationCache \<Rightarrow> Time \<Rightarrow> Time \<Rightarrow> string \<Rightarrow> TokenValidationResult \<Rightarrow> Duration
     \<Rightarrow> TokenValidationCache" where
  "grpcTokenCache_set c now now' token res ttl =
     (let c' = c(token \<mapsto> \<lparr>cached_result = res, cached_expiresAt = now + ttl\<rparr>)
      in if 1000 < card (dom c') then grpcTokenCache_cleanup c' now' else c')"

section \<open>The token validation path\<close>

text \<open>
  \<^verbatim>\<open>strings.HasPrefix\<close> and \<^verbatim>\<open>strings.TrimPrefix\<close>.
\<close>

definition HasPrefix :: "string \<Rightarrow> string \<Rightarrow> bool" where
  "HasPrefix s pre \<longleftrightarrow> take (length pre) s = pre"

definition TrimPrefix :: "string \<Rightarrow> string \<Rightarrow> string" where
  "TrimPrefix s pre = (if HasPrefix s pre then drop (length pre) s else s)"

text \<open>
  The remote validator is a collaborator: \<^verbatim>\<open>ValidateToken\<close> returns a pointer (nil or
  a result) and an error (nil or a message). A function that panics on a nil pointer
  ends in \<open>Panic\<close>.
\<close>

type_synonym TokenValidator = "string \<Rightarrow> TokenValidationResult option \<times> string option"

datatype 'a outcome = Done 'a | Panic

text \<open>
  What a run of the validation path did to its collaborators, in order: a look-up in the
  token cache, a call of the remote validator, a write to the token cache, each with the
  token it was given.
\<close>

datatype event = CacheLookup string | RemoteValidate string | CacheStore string

record 'a auth_run =
  outcome :: "'a outcome"
  cache_after :: TokenValidationCache
  trace :: "event list"

subsection \<open>HTTP: \<^verbatim>\<open>RemoteServiceAuthMiddleware\<close>\<close>

record RemoteServiceAuthConfig =
  TokenValidator :: TokenValidator
  CacheTTL :: Duration
  SkipPaths :: "string list"
  RequiredScope :: string
  Enabled :: bool

record fiber_Ctx =
  Path :: string
  headers :: "string \<rightharpoonup> string"

definition fiber_Get :: "fiber_Ctx \<Rightarrow> string \<Rightarrow> string" where
  \<comment> \<open>\<^verbatim>\<open>c.Get(key)\<close>: the header, or the empty string when it is not there\<close>
  "fiber_Get c key = (case headers c key of None \<Rightarrow> '''' | Some v \<Rightarrow> v)"

datatype local_value = LString string | LStrings "string list"

text \<open>
  The handler either passes the request on (\<^verbatim>\<open>c.Next()\<close>, with the values it stored
  by \<^verbatim>\<open>c.Locals\<close>) or answers with a status and a JSON object.
\<close>

datatype http_result = Next "(string \<times> local_value) list" | Status nat "(string \<times> string) list"

definition StatusUnauthorized :: nat where "StatusUnauthorized = 401"
definition StatusForbidden :: nat where "StatusForbidden = 403"

definition service_locals :: "TokenValidationResult \<Rightarrow> (string \<times> local_value) list" where
  "service_locals v =
     [(''serviceClientId'', LString (ClientID v)),
      (''serviceName'', LString (ServiceName v)),
      (''serviceScopes'', LStrings (Scopes v)),
      (''tenantId'', LString (TenantID v))]"

text \<open>
  The handler returned by \<^verbatim>\<open>RemoteServiceAuthMiddleware(cfg)\<close>, run on a request
  \<open>c\<close> with the global token cache in the state \<open>cache\<close>. The clock is read by the
  cache look-up (\<open>t1\<close>), by the cache write (\<open>t2\<close>) and by the clean-up inside the
  write (\<open>t3\<close>).
\<close>

definition RemoteServiceAuthMiddleware ::
  "RemoteServiceAuthConfig \<Rightarrow> fiber_Ctx \<Rightarrow> TokenValidationCache \<Rightarrow> Time \<Rightarrow> Time \<Rightarrow> Time
     \<Rightarrow> http_result auth_run" where
  "RemoteServiceAuthMiddleware cfg c cache t1 t2 t3 =
     (if \<not> Enabled cfg then \<lparr>outcome = Done (Next []), cache_after = cache, trace = []\<rparr>
      else if \<exists>path \<in> set (SkipPaths cfg). HasPrefix (Path c) path
      then \<lparr>outcome = Done (Next []), cache_after = cache, trace = []\<rparr>
      else
        let authHeader = fiber_Get c ''Authorization'' in
        if authHeader = '''' \<or> \<not> HasPrefix authHeader ''Bearer ''
        then \<lparr>outcome = Done (Status StatusUnauthorized
                 [(''error'', ''Missing or invalid authorization header'')]),
               cache_after = cache, trace = []\<rparr>
        else
          let token = drop 7 authHeader in
          (case TokenValidationCache_get cache t1 token of
             Some cached \<Rightarrow>
               if RequiredScope cfg \<noteq> '''' \<and> \<not> hasScopeInList (Scopes cached) (RequiredScope cfg)
               then \<lparr>outcome = Done (Status StatusForbidden
                        [(''error'', ''Insufficient permissions'')]),
                      cache_after = cache, trace = [CacheLookup token]\<rparr>
               else \<lparr>outcome = Done (Next (service_locals cached)),
                      cache_after = cache, trace = [CacheLookup token]\<rparr>
           | None \<Rightarrow>
               (case TokenValidator cfg token of
                  (_, Some err) \<Rightarrow>
                    \<lparr>outcome = Done (Status StatusUnauthorized
                       [(''error'', ''Invalid service token'')]),
                     cache_after = cache, trace = [CacheLookup token, RemoteValidate token]\<rparr>
                | (None, None) \<Rightarrow>
                    \<lparr>outcome = Panic, cache_after = cache,
                     trace = [CacheLookup token, RemoteValidate token]\<rparr>
                | (Some validation, None) \<Rightarrow>
                    if \<not> Valid validation
                    then \<lparr>outcome = Done (Status StatusUnauthorized
                             [(''error'', ''Token is not valid'')]),
                           cache_after = cache,
                           trace = [CacheLookup token, RemoteValidate token]\<rparr>
                    else
                      let ttl = (if CacheTTL cfg = 0 then 5 * Minute else CacheTTL cfg);
                          cache' = TokenValidationCache_set cache t2 t3 token validation ttl;
                          tr = [CacheLookup token, RemoteValidate token, CacheStore token]
                      in
                      if RequiredScope cfg \<noteq> '''' \<and>
                         \<not> hasScopeInList (Scopes validation) (RequiredScope cfg)
                      then \<lparr>outcome = Done (Status StatusForbidden
                               [(''error'', ''Insufficient permissions''),
                                (''required'', RequiredScope cfg)]),
                             cache_after = cache', trace = tr\<rparr>
                      else \<lparr>outcome = Done (Next (service_locals validation)),
                             cache_after = cache', trace = tr\<rparr>)))"

subsection \<open>gRPC: \<^verbatim>\<open>validateGRPCToken\<close>\<close>

datatype Code = OK | Canceled | Unknown | InvalidArgument | DeadlineExceeded | NotFound
  | AlreadyExists | PermissionDenied | ResourceExhausted | FailedPrecondition | Aborted
  | OutOfRange | Unimplemented | Internal | Unavailable | DataLoss | Unauthenticated

text \<open>\<^verbatim>\<open>status.Error(code, msg)\<close>\<close>

datatype status_error = StatusError Code string

datatype ctx_value = VString string | VStrings "string list"

text \<open>
  A \<^verbatim>\<open>context.Context\<close> as far as the interceptor uses it: the incoming metadata, if
  any, and the values attached by \<^verbatim>\<open>context.WithValue\<close>, the latest first.
\<close>

record Context =
  incoming_md :: "(string \<rightharpoonup> string list) option"
  ctx_values :: "(string \<times> ctx_value) list"

definition WithValue :: "Context \<Rightarrow> string \<Rightarrow> ctx_value \<Rightarrow> Context" where
  "WithValue ctx key v = ctx\<lparr>ctx_values := (key, v) # ctx_values ctx\<rparr>"

definition md_Get :: "(string \<rightharpoonup> string list) \<Rightarrow> string \<Rightarrow> string list" where
  \<comment> \<open>\<^verbatim>\<open>md.Get(key)\<close>: the values of the key, none when it is not there\<close>
  "md_Get md key = (case md key of None \<Rightarrow> [] | Some vs \<Rightarrow> vs)"

record AuthInterceptorConfig =
  grpc_TokenValidator :: TokenValidator
  grpc_CacheTTL :: Duration

definition addServiceInfoToContext :: "Context \<Rightarrow> TokenValidationResult \<Rightarrow> Context" where
  "addServiceInfoToContext ctx0 validation =
     (let ctx1 = WithValue ctx0 ''serviceClientId'' (VString (ClientID validation));
          ctx2 = WithValue ctx1 ''serviceName'' (VString (ServiceName validation));
          ctx3 = WithValue ctx2 ''serviceScopes'' (VStrings (Scopes validation));
          ctx4 = WithValue ctx3 ''tenantId'' (VString (TenantID validation))
      in if UserID validation \<noteq> '''' then WithValue ctx4 ''userId'' (VString (UserID validation))
         else ctx4)"

definition validateGRPCToken ::
  "Context \<Rightarrow> AuthInterceptorConfig \<Rightarrow> TokenValidationCache \<Rightarrow> Time \<Rightarrow> Time \<Rightarrow> Time
     \<Rightarrow> (status_error + Context) auth_run" where
  "validateGRPCToken ctx cfg cache t1 t2 t3 =
     (case incoming_md ctx of
        None \<Rightarrow> \<lparr>outcome = Done (Inl (StatusError Unauthenticated ''missing metadata'')),
                 cache_after = cache, trace = []\<rparr>
      | Some md \<Rightarrow>
          let authHeader = md_Get md ''authorization'' in
          if length authHeader = 0
          then \<lparr>outcome = Done (Inl (StatusError Unauthenticated ''missing authorization header'')),
                 cache_after = cache, trace = []\<rparr>
          else
            let token = TrimPrefix (authHeader ! 0) ''Bearer '' in
            if token = authHeader ! 0
            then \<lparr>outcome = Done (Inl (StatusError Unauthenticated ''invalid authorization format'')),
                   cache_after = cache, trace = []\<rparr>
            else
              (case grpcTokenCache_get cache t1 token of
                 Some cached \<Rightarrow>
                   \<lparr>outcome = Done (Inr (addServiceInfoToContext ctx cached)),
                    cache_after = cache, trace = [CacheLookup token]\<rparr>
               | None \<Rightarrow>
                   (case grpc_TokenValidator cfg token of
                      (_, Some err) \<Rightarrow>
                        \<lparr>outcome = Done (Inl (StatusError Unauthenticated ''token validation failed'')),
                         cache_after = cache, trace = [CacheLookup token, RemoteValidate token]\<rparr>
                    | (None, None) \<Rightarrow>
                        \<lparr>outcome = Panic, cache_after = cache,
                         trace = [CacheLookup token, RemoteValidate token]\<rparr>
                    | (Some validation, None) \<Rightarrow>
                        if \<not> Valid validation
                        then \<lparr>outcome = Done (Inl (StatusError Unauthenticated ''invalid token'')),
                               cache_after = cache,
                               trace = [CacheLookup token, RemoteValidate token]\<rparr>
                        else
                          let ttl = (if grpc_CacheTTL cfg = 0 then 5 * Minute
                                     else grpc_CacheTTL cfg)
                          in \<lparr>outcome = Done (Inr (addServiceInfoToContext ctx validation)),
                               cache_after = grpcTokenCache_set cache t2 t3 token validation ttl,
                               trace = [CacheLookup token, RemoteValidate token,
                                        CacheStore token]\<rparr>)))"

subsection \<open>Sample inputs\<close>

text \<open>
  A validator that knows one valid token and one revoked token and cannot be reached for
  any other, with the configurations and requests the examples below run on.
\<close>

definition sample_result :: TokenValidationResult where
  "sample_result =
     \<lparr>Valid = True, ClientID = ''svc-1'', ServiceName = ''notifier'', TenantID = ''t1'',
      UserID = '''', Scopes = [''notifications:*''], ExpiresAt = 0\<rparr>"

definition sample_validator :: TokenValidator where
  "sample_validator token =
     (if token = ''good'' then (Some sample_result, None)
      else if token = ''revoked'' then (Some (sample_result\<lparr>Valid := False\<rparr>), None)
      else (None, Some ''auth service unreachable''))"

definition sample_cfg :: RemoteServiceAuthConfig where
  "sample_cfg =
     \<lparr>TokenValidator = sample_validator, CacheTTL = 0, SkipPaths = [''/health''],
      RequiredScope = ''notifications:send'', Enabled = True\<rparr>"

definition sample_request :: "string \<Rightarrow> fiber_Ctx" where
  "sample_request h = \<lparr>Path = ''/api/send'', headers = [''Authorization'' \<mapsto> h]\<rparr>"

definition sample_grpc_cfg :: AuthInterceptorConfig where
  "sample_grpc_cfg = \<lparr>grpc_TokenValidator = sample_validator, grpc_CacheTTL = 0\<rparr>"

definition sample_ctx :: "string \<Rightarrow> Context" where
  "sample_ctx h = \<lparr>incoming_md = Some [''authorization'' \<mapsto> [h]], ctx_values = []\<rparr>"

section \<open>\<^verbatim>\<open>float64\<close> arithmetic\<close>

text \<open>
  The back-off is computed in \<^verbatim>\<open>float64\<close>. A \<^verbatim>\<open>float64\<close> is a rational number that
  fits the format (53 significant bits, exponents from \<open>-1022\<close> to \<open>1023\<close>), an
  infinity or a NaN; the two zeros are not told apart, since the code only multiplies,
  compares and converts. Every operation computes the exact result and rounds it to the
  nearest value of the format, ties to the even significand.
\<close>

datatype float64 = Fin rat | PInf | NInf | NaN

definition pow2 :: "int \<Rightarrow> rat" where
  "pow2 e = (if 0 \<le> e then 2 ^ nat e else 1 / 2 ^ nat (- e))"

text \<open>For \<open>x > 0\<close>, the exponent \<open>e\<close> with \<open>2\<^sup>e \<le> x < 2\<^sup>e\<^sup>+\<^sup>1\<close>.\<close>

definition ilog2 :: "rat \<Rightarrow> int" where
  "ilog2 x = (if 1 \<le> x then bitlen \<lfloor>x\<rfloor> - 1 else - bitlen (\<lceil>1 / x\<rceil> - 1))"

text \<open>Rounding to the nearest integer, ties to even.\<close>

definition rne :: "rat \<Rightarrow> int" where
  "rne x =
     (let f = \<lfloor>x\<rfloor>; r = x - of_int f
      in if r < 1 / 2 then f else if 1 / 2 < r then f + 1 else if even f then f else f + 1)"

text \<open>
  Rounding of a positive rational to 53 significant bits; below \<open>2\<^sup>-\<^sup>1\<^sup>0\<^sup>2\<^sup>2\<close> the
  spacing stays that of the smallest normal numbers.
\<close>

definition round_pos :: "rat \<Rightarrow> rat" where
  "round_pos a =
     (let e = max (ilog2 a) (- 1022); u = pow2 (e - 52) in of_int (rne (a / u)) * u)"

definition round_f64 :: "rat \<Rightarrow> float64" where
  "round_f64 x =
     (if x = 0 then Fin 0
      else if 0 < x then (if pow2 1024 \<le> round_pos x then PInf else Fin (round_pos x))
      else (if pow2 1024 \<le> round_pos (- x) then NInf else Fin (- round_pos (- x))))"

text \<open>The product \<^verbatim>\<open>a * b\<close>.\<close>

fun fmul :: "float64 \<Rightarrow> float64 \<Rightarrow> float64" where
  "fmul NaN _ = NaN"
| "fmul _ NaN = NaN"
| "fmul (Fin a) (Fin b) = round_f64 (a * b)"
| "fmul (Fin a) PInf = (if a = 0 then NaN else if 0 < a then PInf else NInf)"
| "fmul (Fin a) NInf = (if a = 0 then NaN else if 0 < a then NInf else PInf)"
| "fmul PInf (Fin b) = (if b = 0 then NaN else if 0 < b then PInf else NInf)"
| "fmul NInf (Fin b) = (if b = 0 then NaN else if 0 < b then NInf else PInf)"
| "fmul PInf PInf = PInf"
| "fmul PInf NInf = NInf"
| "fmul NInf PInf = NInf"
| "fmul NInf NInf = PInf"

text \<open>The comparison \<^verbatim>\<open>a > b\<close>; it is false when either side is a NaN.\<close>

fun fgt :: "float64 \<Rightarrow> float64 \<Rightarrow> bool" where
  "fgt NaN _ = False"
| "fgt _ NaN = False"
| "fgt (Fin a) (Fin b) = (b < a)"
| "fgt (Fin a) PInf = False"
| "fgt (Fin a) NInf = True"
| "fgt PInf PInf = False"
| "fgt PInf _ = True"
| "fgt NInf _ = False"

text \<open>The conversion \<^verbatim>\<open>float64(i)\<close> of a 64-bit integer.\<close>

definition float64_of_int :: "int \<Rightarrow> float64" where
  "float64_of_int i = round_f64 (of_int i)"

text \<open>
  The conversion of a \<^verbatim>\<open>float64\<close> to a 64-bit integer (\<^verbatim>\<open>int(x)\<close>,
  \<^verbatim>\<open>time.Duration(x)\<close>) drops the fraction. When the value does not fit, or is not a
  number, the language leaves the result to the implementation: \<open>None\<close>.
\<close>

definition int64_of_float :: "float64 \<Rightarrow> int option" where
  "int64_of_float x =
     (case x of
        Fin q \<Rightarrow>
          (let t = (if 0 \<le> q then \<lfloor>q\<rfloor> else \<lceil>q\<rceil>)
           in if - (2 ^ 63) \<le> t \<and> t < 2 ^ 63 then Some t else None)
      | _ \<Rightarrow> None)"

text \<open>
  \<^verbatim>\<open>pow(base, exp)\<close> of both client packages: \<^verbatim>\<open>int(exp)\<close> rounded
  multiplications by the base, starting from 1.0.
\<close>

fun pow_loop :: "float64 \<Rightarrow> nat \<Rightarrow> float64" where
  "pow_loop base 0 = Fin 1"
| "pow_loop base (Suc i) = fmul (pow_loop base i) base"

definition pow :: "float64 \<Rightarrow> float64 \<Rightarrow> float64 option" where
  "pow base ex = (case int64_of_float ex of None \<Rightarrow> None | Some n \<Rightarrow> Some (pow_loop base (nat n)))"

section \<open>The HTTP client (package \<^verbatim>\<open>httpclient\<close>)\<close>

record RetryConfig =
  MaxRetries :: int
  InitialDelay :: Duration
  MaxDelay :: Duration
  BackoffFactor :: float64
  RetryableErrors :: "int list"

record Config =
  BaseURL :: string
  Config_ServiceName :: string
  Timeout :: Duration
  RetryConfig :: RetryConfig

record Client =
  httpClient_Timeout :: Duration
  retryConfig :: RetryConfig
  baseURL :: string
  serviceName :: string

record Response =
  StatusCode :: int
  Body :: bytes

definition DefaultRetryConfig :: RetryConfig where
  "DefaultRetryConfig =
     \<lparr>MaxRetries = 3, InitialDelay = 500 * Millisecond, MaxDelay = 5 * Second,
      BackoffFactor = Fin 2, RetryableErrors = [408, 429, 500, 502, 503, 504]\<rparr>"

definition NewClient :: "Config \<Rightarrow> Client" where
  "NewClient cfg0 =
     (let cfg1 = (if Timeout cfg0 = 0 then cfg0\<lparr>Timeout := 30 * Second\<rparr> else cfg0);
          cfg = (if MaxRetries (RetryConfig cfg1) = 0
                 then cfg1\<lparr>RetryConfig := DefaultRetryConfig\<rparr> else cfg1)
      in \<lparr>httpClient_Timeout = Timeout cfg, retryConfig = RetryConfig cfg,
          baseURL = BaseURL cfg, serviceName = Config_ServiceName cfg\<rparr>)"

definition calculateBackoff :: "Client \<Rightarrow> int \<Rightarrow> Duration option" where
  "calculateBackoff c attempt =
     (case pow (BackoffFactor (retryConfig c)) (float64_of_int (attempt - 1)) of
        None \<Rightarrow> None
      | Some p \<Rightarrow>
          let delay = fmul (float64_of_int (InitialDelay (retryConfig c))) p
          in if fgt delay (float64_of_int (MaxDelay (retryConfig c)))
             then Some (MaxDelay (retryConfig c))
             else int64_of_float delay)"

fun shouldRetry_loop :: "int list \<Rightarrow> int \<Rightarrow> bool" where
  "shouldRetry_loop [] statusCode = False"
| "shouldRetry_loop (code # codes) statusCode =
     (if code = statusCode then True else shouldRetry_loop codes statusCode)"

definition shouldRetry :: "Client \<Rightarrow> int \<Rightarrow> bool" where
  "shouldRetry c statusCode = shouldRetry_loop (RetryableErrors (retryConfig c)) statusCode"

text \<open>\<^verbatim>\<open>ctx.Err()\<close> of a context that is done.\<close>

datatype context_error = ContextCanceled | ContextDeadlineExceeded

text \<open>
  The errors \<^verbatim>\<open>Do\<close> returns: an error of \<^verbatim>\<open>doRequest\<close>, the error made from a
  retryable response (\<^verbatim>\<open>fmt.Errorf("HTTP %d: %s", status, body)\<close>), the error of the
  context, and the error of \<^verbatim>\<open>NewServiceUnavailableError\<close>.
\<close>

datatype http_error =
    RequestError string
  | HTTPStatusError int bytes
  | ContextError context_error
  | ServiceUnavailableError string http_error

text \<open>
  Modelled from the spec: \<^verbatim>\<open>NewServiceUnavailableError\<close> of package \<^verbatim>\<open>httpclient\<close>
  is called by \<^verbatim>\<open>Do\<close> but its file is not among the sources. By the specification it
  makes the distinguished error that wraps the last underlying error and names the
  target service, as its namesake in package \<^verbatim>\<open>grpcclient\<close> does.
\<close>

definition NewServiceUnavailableError :: "string \<Rightarrow> http_error \<Rightarrow> http_error" where
  "NewServiceUnavailableError name err = ServiceUnavailableError name err"

text \<open>
  What a run of a retry loop did, in order: a wait between two attempts (with the delay
  it asked the timer for) and an attempt (with its index, from 0).
\<close>

datatype retry_event = Wait "Duration option" | Attempt int

record 'a retry_run =
  returned :: "'a outcome"
  events :: "retry_event list"

definition attempts :: "'a retry_run \<Rightarrow> nat" where
  "attempts r = length (filter (\<lambda>e. case e of Attempt _ \<Rightarrow> True | Wait _ \<Rightarrow> False) (events r))"

definition after_event :: "retry_event \<Rightarrow> 'a retry_run \<Rightarrow> 'a retry_run" where
  "after_event e r = r\<lparr>events := e # events r\<rparr>"

text \<open>
  The loop of \<^verbatim>\<open>Do\<close>, from the iteration \<open>attempt\<close> on. The world outside is given by
  two functions of the attempt index: \<open>doRequest\<close>, what the attempt returns (an error
  or a response), and \<open>ctxDone\<close>, whether the \<^verbatim>\<open>select\<close> before the attempt takes
  the branch of \<^verbatim>\<open>ctx.Done()\<close> rather than that of the timer, and with which error.
  After the loop \<^verbatim>\<open>lastErr.Error()\<close> is called for the log: with no error recorded
  that is a nil dereference.
\<close>

function Do_loop ::
  "Client \<Rightarrow> (int \<Rightarrow> string + Response) \<Rightarrow> (int \<Rightarrow> context_error option) \<Rightarrow> int
     \<Rightarrow> http_error option \<Rightarrow> (http_error + Response) retry_run" where
  "Do_loop c doRequest ctxDone attempt lastErr =
     (if attempt \<le> MaxRetries (retryConfig c) then
        (case (if 0 < attempt then ctxDone attempt else None) of
           Some e \<Rightarrow>
             \<lparr>returned = Done (Inl (ContextError e)),
              events = [Wait (calculateBackoff c attempt)]\<rparr>
         | None \<Rightarrow>
             (let waited = (if 0 < attempt then [Wait (calculateBackoff c attempt)] else []);
                  rest =
                    (case doRequest attempt of
                       Inr resp \<Rightarrow>
                         if \<not> shouldRetry c (StatusCode resp)
                         then \<lparr>returned = Done (Inr resp), events = []\<rparr>
                         else Do_loop c doRequest ctxDone (attempt + 1)
                                (Some (HTTPStatusError (StatusCode resp) (Body resp)))
                     | Inl err \<Rightarrow>
                         Do_loop c doRequest ctxDone (attempt + 1) (Some (RequestError err)))
              in rest\<lparr>events := waited @ Attempt attempt # events rest\<rparr>))
      else
        (case lastErr of
           None \<Rightarrow> \<lparr>returned = Panic, events = []\<rparr>
         | Some err \<Rightarrow>
             \<lparr>returned = Done (Inl (NewServiceUnavailableError (serviceName c) err)),
              events = []\<rparr>))"
  by pat_completeness auto
termination
  by (relation "measure (\<lambda>(c, doRequest, ctxDone, attempt, lastErr).
        nat (MaxRetries (retryConfig c) + 1 - attempt))") auto

declare Do_loop.simps [simp del]

definition Do ::
  "Client \<Rightarrow> (int \<Rightarrow> string + Response) \<Rightarrow> (int \<Rightarrow> context_error option)
     \<Rightarrow> (http_error + Response) retry_run" where
  "Do c doRequest ctxDone = Do_loop c doRequest ctxDone 0 None"

section \<open>The gRPC client (package \<^verbatim>\<open>grpcclient\<close>)\<close>

record grpc_RetryConfig =
  grpc_MaxRetries :: int
  grpc_InitialDelay :: Duration
  grpc_MaxDelay :: Duration
  grpc_BackoffFactor :: float64
  RetryableCodes :: "Code list"

record grpc_Config =
  Target :: string
  grpc_ServiceName :: string
  grpc_RetryConfig :: grpc_RetryConfig

record grpc_Client =
  grpc_retryConfig :: grpc_RetryConfig
  target :: string
  grpc_serviceName :: string

definition grpc_DefaultRetryConfig :: grpc_RetryConfig where
  "grpc_DefaultRetryConfig =
     \<lparr>grpc_MaxRetries = 3, grpc_InitialDelay = 500 * Millisecond, grpc_MaxDelay = 5 * Second,
      grpc_BackoffFactor = Fin 2,
      RetryableCodes = [Unavailable, ResourceExhausted, DeadlineExceeded, Internal]\<rparr>"

text \<open>
  The errors that pass through the retry interceptor: a gRPC status, any other error of
  the invoker, the error of the context, and \<^verbatim>\<open>ServiceUnavailableError\<close> of
  \<^verbatim>\<open>grpcclient/errors.go\<close>, whose wrapped error may be nil.
\<close>

datatype grpc_error =
    GrpcStatus Code string
  | OtherError string
  | GrpcContextError context_error
  | GrpcServiceUnavailableError string "grpc_error option"

definition grpc_NewServiceUnavailableError :: "string \<Rightarrow> grpc_error option \<Rightarrow> grpc_error" where
  "grpc_NewServiceUnavailableError name err = GrpcServiceUnavailableError name err"

text \<open>
  The code of \<^verbatim>\<open>status.FromError(err)\<close>: that of the status the error is or wraps,
  \<^verbatim>\<open>Unknown\<close> for an error that holds no status.
\<close>

fun status_Code :: "grpc_error \<Rightarrow> Code" where
  "status_Code (GrpcStatus code msg) = code"
| "status_Code (OtherError msg) = Unknown"
| "status_Code (GrpcContextError e) = Unknown"
| "status_Code (GrpcServiceUnavailableError name None) = Unknown"
| "status_Code (GrpcServiceUnavailableError name (Some err)) = status_Code err"

fun shouldRetryCode :: "Code \<Rightarrow> Code list \<Rightarrow> bool" where
  "shouldRetryCode code [] = False"
| "shouldRetryCode code (c # retryableCodes) =
     (if c = code then True else shouldRetryCode code retryableCodes)"

definition grpc_calculateBackoff :: "grpc_RetryConfig \<Rightarrow> int \<Rightarrow> Duration option" where
  "grpc_calculateBackoff cfg attempt =
     (case pow (grpc_BackoffFactor cfg) (float64_of_int (attempt - 1)) of
        None \<Rightarrow> None
      | Some p \<Rightarrow>
          let delay = fmul (float64_of_int (grpc_InitialDelay cfg)) p
          in if fgt delay (float64_of_int (grpc_MaxDelay cfg))
             then Some (grpc_MaxDelay cfg)
             else int64_of_float delay)"

text \<open>
  The interceptor made by \<^verbatim>\<open>createRetryInterceptor(logger, serviceName, cfg)\<close>, from
  the iteration \<open>attempt\<close> on; \<open>invoker\<close> gives the error of each attempt (\<open>None\<close> for
  nil), \<open>ctxDone\<close> is as for the HTTP client. The interceptor returns an error or nil.
\<close>

function retryInterceptor_loop ::
  "string \<Rightarrow> grpc_RetryConfig \<Rightarrow> (int \<Rightarrow> grpc_error option) \<Rightarrow> (int \<Rightarrow> context_error option)
     \<Rightarrow> int \<Rightarrow> grpc_error option \<Rightarrow> (grpc_error option) retry_run" where
  "retryInterceptor_loop name cfg invoker ctxDone attempt lastErr =
     (if attempt \<le> grpc_MaxRetries cfg then
        (case (if 0 < attempt then ctxDone attempt else None) of
           Some e \<Rightarrow>
             \<lparr>returned = Done (Some (GrpcContextError e)),
              events = [Wait (grpc_calculateBackoff cfg attempt)]\<rparr>
         | None \<Rightarrow>
             (let waited = (if 0 < attempt then [Wait (grpc_calculateBackoff cfg attempt)] else []);
                  rest =
                    (case invoker attempt of
                       None \<Rightarrow> \<lparr>returned = Done None, events = []\<rparr>
                     | Some err \<Rightarrow>
                         if \<not> shouldRetryCode (status_Code err) (RetryableCodes cfg)
                         then \<lparr>returned = Done (Some err), events = []\<rparr>
                         else retryInterceptor_loop name cfg invoker ctxDone (attempt + 1)
                                (Some err))
              in rest\<lparr>events := waited @ Attempt attempt # events rest\<rparr>))
      else \<lparr>returned = Done (Some (grpc_NewServiceUnavailableError name lastErr)), events = []\<rparr>)"
  by pat_completeness auto
termination
  by (relation "measure (\<lambda>(name, cfg, invoker, ctxDone, attempt, lastErr).
        nat (grpc_MaxRetries cfg + 1 - attempt))") auto

declare retryInterceptor_loop.simps [simp del]

definition createRetryInterceptor ::
  "string \<Rightarrow> grpc_RetryConfig \<Rightarrow> (int \<Rightarrow> grpc_error option) \<Rightarrow> (int \<Rightarrow> context_error option)
     \<Rightarrow> (grpc_error option) retry_run" where
  "createRetryInterceptor name cfg invoker ctxDone =
     retryInterceptor_loop name cfg invoker ctxDone 0 None"

text \<open>
  \<^verbatim>\<open>NewClient\<close> dials the target, which may fail (\<open>dial = Some err\<close>). The retry
  interceptor it installs is made from the configuration after the default has been
  substituted, the one the client records.
\<close>

definition grpc_NewClient :: "grpc_Config \<Rightarrow> string option \<Rightarrow> string + grpc_Client" where
  "grpc_NewClient cfg0 dial =
     (let cfg = (if grpc_MaxRetries (grpc_RetryConfig cfg0) = 0
                 then cfg0\<lparr>grpc_RetryConfig := grpc_DefaultRetryConfig\<rparr> else cfg0)
      in case dial of
           Some err \<Rightarrow> Inl (''failed to connect to '' @ Target cfg @ '': '' @ err)
         | None \<Rightarrow>
             Inr \<lparr>grpc_retryConfig = grpc_RetryConfig cfg, target = Target cfg,
                  grpc_serviceName = grpc_ServiceName cfg\<rparr>)"

subsection \<open>Vocabulary for the retry claims\<close>

text \<open>
  The failure an attempt of \<^verbatim>\<open>Do\<close> is recorded with when it is going to be retried:
  every error of \<^verbatim>\<open>doRequest\<close>, and every response whose status is in
  \<^verbatim>\<open>RetryableErrors\<close>. \<open>None\<close> for a response that is returned to the caller.
\<close>

definition retryable_failure :: "Client \<Rightarrow> string + Response \<Rightarrow> http_error option" where
  "retryable_failure c r =
     (case r of
        Inl err \<Rightarrow> Some (RequestError err)
      | Inr resp \<Rightarrow>
          if shouldRetry c (StatusCode resp)
          then Some (HTTPStatusError (StatusCode resp) (Body resp)) else None)"

text \<open>A result of the gRPC invoker that is going to be retried.\<close>

definition grpc_retryable :: "grpc_RetryConfig \<Rightarrow> grpc_error option \<Rightarrow> bool" where
  "grpc_retryable cfg r =
     (case r of None \<Rightarrow> False | Some err \<Rightarrow> shouldRetryCode (status_Code err) (RetryableCodes cfg))"

definition sample_client :: Client where
  "sample_client =
     \<lparr>httpClient_Timeout = 30 * Second,
      retryConfig = \<lparr>MaxRetries = 2, InitialDelay = 100 * Millisecond, MaxDelay = 5 * Second,
        BackoffFactor = Fin 2, RetryableErrors = [503]\<rparr>,
      baseURL = ''http://notifier'', serviceName = ''notifier''\<rparr>"

definition sample_grpc_retry :: grpc_RetryConfig where
  "sample_grpc_retry =
     \<lparr>grpc_MaxRetries = 2, grpc_InitialDelay = 100 * Millisecond, grpc_MaxDelay = 5 * Second,
      grpc_BackoffFactor = Fin 2, RetryableCodes = [Unavailable]\<rparr>"

definition always_503 :: "int \<Rightarrow> string + Response" where
  "always_503 i = Inr \<lparr>StatusCode = 503, Body = ''busy''\<rparr>"

definition always_unavailable :: "int \<Rightarrow> grpc_error option" where
  "always_unavailable i = Some (GrpcStatus Unavailable ''down'')"

definition never_done :: "int \<Rightarrow> context_error option" where
  "never_done i = None"

definition no_retry_cfg :: Config where
  "no_retry_cfg =
     \<lparr>BaseURL = ''http://notifier'', Config_ServiceName = ''notifier'', Timeout = 0,
      RetryConfig = \<lparr>MaxRetries = 0, InitialDelay = Second, MaxDelay = 2 * Second,
        BackoffFactor = Fin 3, RetryableErrors = [503]\<rparr>\<rparr>"

definition no_retry_grpc_cfg :: grpc_Config where
  "no_retry_grpc_cfg =
     \<lparr>Target = ''notifier:9090'', grpc_ServiceName = ''notifier'',
      grpc_RetryConfig = \<lparr>grpc_MaxRetries = 0, grpc_InitialDelay = Second,
        grpc_MaxDelay = 2 * Second, grpc_BackoffFactor = Fin 3, RetryableCodes = [Unavailable]\<rparr>\<rparr>"

section \<open>The rate limiter (\<^verbatim>\<open>limiter/ip_limiter.go\<close>)\<close>

text \<open>
  A \<^verbatim>\<open>*rate.Limiter\<close> is a pointer to a bucket on the heap, and what a caller of
  \<^verbatim>\<open>GetLimiter\<close> gets is such a pointer. The heap is the list of the buckets
  allocated so far; a pointer is an index into it, and \<^verbatim>\<open>rate.NewLimiter\<close> allocates
  the next one.
\<close>

record rate_Limiter =
  limit :: float64
  burst :: int

record limiterEntry =
  limiter :: nat
  lastSeen :: Time

record IPRateLimiter =
  ips :: "string \<rightharpoonup> limiterEntry"
  limiter_r :: float64
  limiter_b :: int
  limiter_ttl :: Duration
  heap :: "rate_Limiter list"

definition NewIPRateLimiterWithTTL :: "float64 \<Rightarrow> int \<Rightarrow> Duration \<Rightarrow> IPRateLimiter" where
  "NewIPRateLimiterWithTTL r0 b0 ttl0 =
     \<lparr>ips = Map.empty, limiter_r = r0, limiter_b = b0,
      limiter_ttl = (if ttl0 = 0 then Hour else ttl0), heap = []\<rparr>"

definition NewIPRateLimiter :: "float64 \<Rightarrow> int \<Rightarrow> IPRateLimiter" where
  "NewIPRateLimiter r0 b0 = NewIPRateLimiterWithTTL r0 b0 Hour"

text \<open>
  \<^verbatim>\<open>AddIP\<close> holds the lock from its first statement to its return, so it is one step:
  it allocates a bucket, stores it under the key whatever is there, and returns it.
\<close>

definition AddIP :: "IPRateLimiter \<Rightarrow> Time \<Rightarrow> string \<Rightarrow> IPRateLimiter \<times> nat" where
  "AddIP i now ip =
     (let p = length (heap i);
          i' = i\<lparr>heap := heap i @ [\<lparr>limit = limiter_r i, burst = limiter_b i\<rparr>],
                ips := (ips i)(ip \<mapsto> \<lparr>limiter = p, lastSeen = now\<rparr>)\<rparr>
      in (i', p))"

text \<open>
  The part of \<^verbatim>\<open>GetLimiter\<close> that runs under the lock. With an entry for the key it
  refreshes \<^verbatim>\<open>lastSeen\<close> and the call returns the bucket of the entry; with none it
  unlocks, and the call goes on to \<^verbatim>\<open>AddIP\<close>, which takes the lock anew.
\<close>

definition GetLimiter_locked :: "IPRateLimiter \<Rightarrow> Time \<Rightarrow> string \<Rightarrow> IPRateLimiter \<times> nat option" where
  "GetLimiter_locked i now ip =
     (case ips i ip of
        None \<Rightarrow> (i, None)
      | Some entry \<Rightarrow> (i\<lparr>ips := (ips i)(ip \<mapsto> entry\<lparr>lastSeen := now\<rparr>)\<rparr>, Some (limiter entry)))"

text \<open>
  A goroutine that has called \<^verbatim>\<open>GetLimiter(ip)\<close> is before the locked part, or
  between the unlock and \<^verbatim>\<open>AddIP\<close>, or has returned with a bucket.
\<close>

datatype position = AtGetLimiter | AtAddIP | Returned nat

record goroutine =
  arg_ip :: string
  pc :: position

definition step :: "IPRateLimiter \<Rightarrow> Time \<Rightarrow> goroutine \<Rightarrow> IPRateLimiter \<times> goroutine" where
  "step i now g =
     (case pc g of
        AtGetLimiter \<Rightarrow>
          (case GetLimiter_locked i now (arg_ip g) of
             (i', Some p) \<Rightarrow> (i', g\<lparr>pc := Returned p\<rparr>)
           | (i', None) \<Rightarrow> (i', g\<lparr>pc := AtAddIP\<rparr>))
      | AtAddIP \<Rightarrow> (case AddIP i now (arg_ip g) of (i', p) \<Rightarrow> (i', g\<lparr>pc := Returned p\<rparr>))
      | Returned p \<Rightarrow> (i, g))"

text \<open>
  The mutex makes the locked parts take turns; a schedule says which goroutine takes the
  next turn, and what the clock shows then.
\<close>

fun run :: "(nat \<times> Time) list \<Rightarrow> IPRateLimiter \<times> goroutine list \<Rightarrow> IPRateLimiter \<times> goroutine list" where
  "run [] cf = cf"
| "run ((k, now) # sched) (i, gs) =
     (if k < length gs
      then (case step i now (gs ! k) of (i', g') \<Rightarrow> run sched (i', gs[k := g']))
      else run sched (i, gs))"

definition calls :: "string list \<Rightarrow> goroutine list" where
  "calls keys = map (\<lambda>ip. \<lparr>arg_ip = ip, pc = AtGetLimiter\<rparr>) keys"

subsection \<open>Vocabulary for the back-off claim\<close>

text \<open>
  The two \<^verbatim>\<open>calculateBackoff\<close> functions have one body; \<open>backoff\<close> is that body as a
  function of the initial delay, the maximal delay and the factor, and \<open>clamp_delay\<close>
  is its last step, the comparison with the maximal delay and the conversion to a
  \<^verbatim>\<open>time.Duration\<close>.
\<close>

definition clamp_delay :: "Duration \<Rightarrow> float64 \<Rightarrow> Duration option" where
  "clamp_delay maxDelay delay =
     (if fgt delay (float64_of_int maxDelay) then Some maxDelay else int64_of_float delay)"

definition backoff :: "Duration \<Rightarrow> Duration \<Rightarrow> float64 \<Rightarrow> int \<Rightarrow> Duration option" where
  "backoff initialDelay maxDelay factor attempt =
     (case pow factor (float64_of_int (attempt - 1)) of
        None \<Rightarrow> None
      | Some p \<Rightarrow> clamp_delay maxDelay (fmul (float64_of_int initialDelay) p))"

text \<open>
  A \<^verbatim>\<open>float64\<close> that is \<open>+Inf\<close> or a number from 1 upwards that rounding leaves as it
  is; and the order of such values.
\<close>

definition at_least_1 :: "float64 \<Rightarrow> bool" where
  "at_least_1 v = (case v of Fin r \<Rightarrow> 1 \<le> r \<and> round_pos r = r | PInf \<Rightarrow> True | _ \<Rightarrow> False)"

definition fle :: "float64 \<Rightarrow> float64 \<Rightarrow> bool" where
  "fle v w =
     (case w of
        PInf \<Rightarrow> True
      | Fin r' \<Rightarrow> (case v of Fin r \<Rightarrow> r \<le> r' | _ \<Rightarrow> False)
      | _ \<Rightarrow> False)"

definition negative_delay_client :: Client where
  "negative_delay_client =
     \<lparr>httpClient_Timeout = 30 * Second,
      retryConfig = \<lparr>MaxRetries = 3, InitialDelay = - Second, MaxDelay = 5 * Second,
        BackoffFactor = Fin 2, RetryableErrors = [503]\<rparr>,
      baseURL = ''http://notifier'', serviceName = ''notifier''\<rparr>"

definition long_delay_client :: Client where
  "long_delay_client =
     \<lparr>httpClient_Timeout = 30 * Second,
      retryConfig = \<lparr>MaxRetries = 3, InitialDelay = 9007199254740993,
        MaxDelay = 9007199254740993, BackoffFactor = Fin 2, RetryableErrors = [503]\<rparr>,
      baseURL = ''http://notifier'', serviceName = ''notifier''\<rparr>"

section \<open>Properties\<close>

subsection \<open>Reading a cache after a write\<close>

lemma MemoryCache_Get_Set:
  "MemoryCache_Get (MemoryCache_Set c now key val ttl0) t key =
     (let ttl = (if ttl0 = 0 then DefaultTTL (options c) else ttl0)
      in if 0 < ttl \<and> now + ttl \<noteq> 0 \<and> now + ttl < t then Inl ErrKeyExpired else Inr val)"
  by (simp add: MemoryCache_Get_def MemoryCache_Set_def buildKey_def Let_def IsZero_def After_def)

lemma TokenValidationCache_get_set:
  "TokenValidationCache_get (TokenValidationCache_set c now now' token res ttl) t token =
     (if now + ttl < t \<or> (1000 < card (dom (c(token \<mapsto> \<lparr>cached_result = res, cached_expiresAt = now + ttl\<rparr>)))
           \<and> now + ttl < now')
      then None else Some res)"
  by (simp add: TokenValidationCache_get_def TokenValidationCache_set_def
      TokenValidationCache_cleanup_def Let_def After_def)

lemma grpcTokenCache_get_set:
  "grpcTokenCache_get (grpcTokenCache_set c now now' token res ttl) t token =
     (if now + ttl < t \<or> (1000 < card (dom (c(token \<mapsto> \<lparr>cached_result = res, cached_expiresAt = now + ttl\<rparr>)))
           \<and> now + ttl < now')
      then None else Some res)"
  by (simp add: grpcTokenCache_get_def grpcTokenCache_set_def
      grpcTokenCache_cleanup_def Let_def After_def)

subsection \<open>Properties of \<open>Split\<close>\<close>

lemma Split_nonempty: "Split s sep \<noteq> []"
  by (induction s) (auto split: list.splits)

lemma Split_no_sep: "sep \<notin> set s \<Longrightarrow> Split s sep = [s]"
  by (induction s) auto

lemma Split_append_sep:
  "sep \<notin> set x \<Longrightarrow> Split (x @ sep # y) sep = x # Split y sep"
  by (induction x) auto

lemma Split_single: "Split s sep = [p] \<Longrightarrow> sep \<notin> set s \<and> p = s"
proof (induction s arbitrary: p)
  case Nil
  then show ?case by simp
next
  case (Cons c cs)
  show ?case
  proof (cases "c = sep")
    case True
    with Cons.prems Split_nonempty [of cs sep] show ?thesis by simp
  next
    case False
    with Cons.prems Split_nonempty [of cs sep]
    obtain q where q: "Split cs sep = [q]" "p = c # q"
      by (auto split: list.splits)
    from Cons.IH [OF q(1)] q(2) False show ?thesis by simp
  qed
qed

lemma Split_two:
  "Split s sep = [p, q] \<Longrightarrow> s = p @ sep # q \<and> sep \<notin> set p \<and> sep \<notin> set q"
proof (induction s arbitrary: p)
  case Nil
  then show ?case by simp
next
  case (Cons c cs)
  show ?case
  proof (cases "c = sep")
    case True
    with Cons.prems have "p = []" "Split cs sep = [q]" by simp_all
    with Split_single [of cs sep q] True show ?thesis by simp
  next
    case False
    with Cons.prems Split_nonempty [of cs sep]
    obtain p' where p': "Split cs sep = [p', q]" "p = c # p'"
      by (auto split: list.splits)
    from Cons.IH [OF p'(1)] p'(2) False show ?thesis by simp
  qed
qed

lemma Split_length_two_iff:
  "length (Split s sep) = 2 \<and> Split s sep ! 0 = x \<longleftrightarrow>
     (\<exists>y. s = x @ sep # y \<and> sep \<notin> set x \<and> sep \<notin> set y)"
proof
  assume h: "length (Split s sep) = 2 \<and> Split s sep ! 0 = x"
  then obtain p q where pq: "Split s sep = [p, q]"
    by (cases "Split s sep"; cases "tl (Split s sep)") auto
  with h have "p = x" by simp
  with Split_two [OF pq] show "\<exists>y. s = x @ sep # y \<and> sep \<notin> set x \<and> sep \<notin> set y"
    by blast
next
  assume "\<exists>y. s = x @ sep # y \<and> sep \<notin> set x \<and> sep \<notin> set y"
  then obtain y where y: "s = x @ sep # y" "sep \<notin> set x" "sep \<notin> set y" by blast
  then show "length (Split s sep) = 2 \<and> Split s sep ! 0 = x"
    by (simp add: Split_append_sep Split_no_sep)
qed

lemma resource_wildcard_iff:
  "(length (Split required CHR '':'') = 2 \<and> scope = Split required CHR '':'' ! 0 @ '':*'') \<longleftrightarrow>
   (\<exists>x y. required = x @ '':'' @ y \<and> CHR '':'' \<notin> set x \<and> CHR '':'' \<notin> set y
      \<and> scope = x @ '':*'')"
  (is "?L \<longleftrightarrow> ?R")
proof
  assume l: ?L
  define x where "x = Split required CHR '':'' ! 0"
  from l have "length (Split required CHR '':'') = 2 \<and> Split required CHR '':'' ! 0 = x"
    by (simp add: x_def)
  then obtain y where "required = x @ CHR '':'' # y" "CHR '':'' \<notin> set x" "CHR '':'' \<notin> set y"
    using Split_length_two_iff [of required "CHR '':''" x] by blast
  with l show ?R unfolding x_def [symmetric] by auto
next
  assume ?R
  then obtain x y where xy: "required = x @ '':'' @ y" "CHR '':'' \<notin> set x"
    "CHR '':'' \<notin> set y" "scope = x @ '':*''" by blast
  then have "length (Split required CHR '':'') = 2 \<and> Split required CHR '':'' ! 0 = x"
    using Split_length_two_iff [of required "CHR '':''" x] by auto
  with xy(4) show ?L by simp
qed

lemma hasScopeInList_iff:
  "hasScopeInList scopes required \<longleftrightarrow> (\<exists>s \<in> set scopes. scope_satisfies s required)"
proof (induction scopes)
  case Nil
  then show ?case by simp
next
  case (Cons scope scopes)
  have "scope_satisfies scope required \<longleftrightarrow>
      scope = ''*'' \<or> scope = required \<or>
      (length (Split required CHR '':'') = 2 \<and> scope = Split required CHR '':'' ! 0 @ '':*'')"
    unfolding scope_satisfies_def resource_wildcard_iff ..
  with Cons.IH show ?case by (auto simp: Let_def)
qed

lemma HasScope_eq: "HasScope scopes required = hasScopeInList scopes required"
  by (induction scopes) (simp_all add: Let_def)

subsection \<open>Prefixes\<close>

lemma HasPrefix_append: "HasPrefix (pre @ s) pre"
  by (simp add: HasPrefix_def)

lemma HasPrefix_empty: "pre \<noteq> [] \<Longrightarrow> \<not> HasPrefix [] pre"
  by (auto simp: HasPrefix_def)

lemma TrimPrefix_append: "TrimPrefix (pre @ s) pre = s"
  by (simp add: TrimPrefix_def HasPrefix_def)

lemma TrimPrefix_same_iff: "pre \<noteq> [] \<Longrightarrow> TrimPrefix s pre = s \<longleftrightarrow> \<not> HasPrefix s pre"
proof -
  assume ne: "pre \<noteq> []"
  have "drop (length pre) s \<noteq> s" if "HasPrefix s pre"
  proof
    assume eq: "drop (length pre) s = s"
    from that have "length (take (length pre) s) = length pre"
      by (simp add: HasPrefix_def)
    then have le: "length pre \<le> length s" by simp
    from eq have "length (drop (length pre) s) = length s" by simp
    with le ne show False by (cases pre) auto
  qed
  then show ?thesis by (auto simp: TrimPrefix_def)
qed

subsection \<open>The retry loops\<close>

lemma attempts_after:
  "attempts (r\<lparr>events := (if b then [Wait d] else []) @ Attempt a # events r\<rparr>) = Suc (attempts r)"
  by (simp add: attempts_def)

lemma attempts_no_attempt:
  "attempts \<lparr>returned = x, events = []\<rparr> = 0"
  "attempts \<lparr>returned = x, events = [Wait d]\<rparr> = 0"
  by (simp_all add: attempts_def)

lemma returned_after:
  "returned (r\<lparr>events := es\<rparr>) = returned r"
  by simp

lemma events_after:
  "events (r\<lparr>events := es\<rparr>) = es"
  by simp

lemma shouldRetry_loop_iff: "shouldRetry_loop codes statusCode \<longleftrightarrow> statusCode \<in> set codes"
  by (induction codes) auto

lemma shouldRetry_iff: "shouldRetry c statusCode \<longleftrightarrow> statusCode \<in> set (RetryableErrors (retryConfig c))"
  by (simp add: shouldRetry_def shouldRetry_loop_iff)

lemma shouldRetryCode_iff: "shouldRetryCode code retryableCodes \<longleftrightarrow> code \<in> set retryableCodes"
  by (induction retryableCodes) auto

text \<open>One iteration of the HTTP loop that ends in a retry.\<close>

lemma Do_loop_retry:
  assumes "a \<le> MaxRetries (retryConfig c)"
    and "0 < a \<Longrightarrow> ctxDone a = None"
    and "retryable_failure c (doRequest a) = Some e"
  shows "Do_loop c doRequest ctxDone a lastErr =
     (Do_loop c doRequest ctxDone (a + 1) (Some e))
       \<lparr>events := (if 0 < a then [Wait (calculateBackoff c a)] else []) @ Attempt a #
          events (Do_loop c doRequest ctxDone (a + 1) (Some e))\<rparr>"
proof -
  from assms(2) have c0: "(if 0 < a then ctxDone a else None) = None" by simp
  show ?thesis
  proof (cases "doRequest a")
    case (Inl err)
    with assms(3) have "e = RequestError err" by (simp add: retryable_failure_def)
    with Inl assms(1) c0 show ?thesis
      by (subst Do_loop.simps) (simp add: Let_def)
  next
    case (Inr resp)
    with assms(3) have "shouldRetry c (StatusCode resp)"
      and "e = HTTPStatusError (StatusCode resp) (Body resp)"
      by (simp_all add: retryable_failure_def split: if_splits)
    with Inr assms(1) c0 show ?thesis
      by (subst Do_loop.simps) (simp add: Let_def)
  qed
qed

lemma Do_loop_after_last:
  "\<not> a \<le> MaxRetries (retryConfig c) \<Longrightarrow>
   Do_loop c doRequest ctxDone a lastErr =
     (case lastErr of
        None \<Rightarrow> \<lparr>returned = Panic, events = []\<rparr>
      | Some err \<Rightarrow>
          \<lparr>returned = Done (Inl (ServiceUnavailableError (serviceName c) err)), events = []\<rparr>)"
  by (subst Do_loop.simps) (simp add: NewServiceUnavailableError_def split: option.splits)

lemma Do_loop_cancel_now:
  "a \<le> MaxRetries (retryConfig c) \<Longrightarrow> 0 < a \<Longrightarrow> ctxDone a = Some e \<Longrightarrow>
   Do_loop c doRequest ctxDone a lastErr =
     \<lparr>returned = Done (Inl (ContextError e)), events = [Wait (calculateBackoff c a)]\<rparr>"
  by (subst Do_loop.simps) simp

lemma Do_loop_exhausted:
  assumes "\<And>i. a \<le> i \<Longrightarrow> i \<le> MaxRetries (retryConfig c) \<Longrightarrow>
             retryable_failure c (doRequest i) \<noteq> None"
    and "\<And>i. a \<le> i \<Longrightarrow> i \<le> MaxRetries (retryConfig c) \<Longrightarrow> 0 < i \<Longrightarrow> ctxDone i = None"
  shows "attempts (Do_loop c doRequest ctxDone a lastErr) =
           nat (MaxRetries (retryConfig c) + 1 - a) \<and>
         returned (Do_loop c doRequest ctxDone a lastErr) =
           (if a \<le> MaxRetries (retryConfig c)
            then Done (Inl (ServiceUnavailableError (serviceName c)
                   (the (retryable_failure c (doRequest (MaxRetries (retryConfig c)))))))
            else case lastErr of None \<Rightarrow> Panic
                 | Some err \<Rightarrow> Done (Inl (ServiceUnavailableError (serviceName c) err)))"
  using assms
proof (induction "nat (MaxRetries (retryConfig c) + 1 - a)" arbitrary: a lastErr)
  case 0
  then have "\<not> a \<le> MaxRetries (retryConfig c)" by simp
  then show ?case
    by (simp add: Do_loop_after_last attempts_no_attempt split: option.splits)
next
  case (Suc n)
  then have le: "a \<le> MaxRetries (retryConfig c)" by simp
  from Suc.hyps(2) have n: "n = nat (MaxRetries (retryConfig c) + 1 - (a + 1))" by simp
  from Suc.prems(1) [OF _ le] obtain e where e: "retryable_failure c (doRequest a) = Some e"
    by auto
  have IH: "attempts (Do_loop c doRequest ctxDone (a + 1) (Some e)) =
              nat (MaxRetries (retryConfig c) + 1 - (a + 1)) \<and>
            returned (Do_loop c doRequest ctxDone (a + 1) (Some e)) =
              (if a + 1 \<le> MaxRetries (retryConfig c)
               then Done (Inl (ServiceUnavailableError (serviceName c)
                      (the (retryable_failure c (doRequest (MaxRetries (retryConfig c)))))))
               else Done (Inl (ServiceUnavailableError (serviceName c) e)))"
    using Suc.hyps(1) [OF n, of "Some e"] Suc.prems by simp
  have unf: "Do_loop c doRequest ctxDone a lastErr =
     (Do_loop c doRequest ctxDone (a + 1) (Some e))
       \<lparr>events := (if 0 < a then [Wait (calculateBackoff c a)] else []) @ Attempt a #
          events (Do_loop c doRequest ctxDone (a + 1) (Some e))\<rparr>"
    using le Suc.prems(2) [OF _ le] e by (intro Do_loop_retry) simp_all
  show ?case
  proof (cases "a + 1 \<le> MaxRetries (retryConfig c)")
    case True
    with IH le show ?thesis unfolding unf attempts_after returned_after by simp
  next
    case False
    with le have "MaxRetries (retryConfig c) = a" by simp
    with IH le e show ?thesis unfolding unf attempts_after returned_after by simp
  qed
qed

lemma Do_loop_cancelled:
  assumes "a \<le> n" and "0 < n" and "n \<le> MaxRetries (retryConfig c)"
    and "\<And>i. a \<le> i \<Longrightarrow> i < n \<Longrightarrow> retryable_failure c (doRequest i) \<noteq> None"
    and "\<And>i. a \<le> i \<Longrightarrow> i < n \<Longrightarrow> 0 < i \<Longrightarrow> ctxDone i = None"
    and "ctxDone n = Some e"
  shows "attempts (Do_loop c doRequest ctxDone a lastErr) = nat (n - a) \<and>
         returned (Do_loop c doRequest ctxDone a lastErr) = Done (Inl (ContextError e)) \<and>
         events (Do_loop c doRequest ctxDone a lastErr) \<noteq> [] \<and>
         last (events (Do_loop c doRequest ctxDone a lastErr)) = Wait (calculateBackoff c n)"
  using assms
proof (induction "nat (n - a)" arbitrary: a lastErr)
  case 0
  then have "a = n" by simp
  with 0 show ?case
    by (simp add: Do_loop_cancel_now attempts_no_attempt)
next
  case (Suc m)
  then have lt: "a < n" by simp
  with Suc.prems have le: "a \<le> MaxRetries (retryConfig c)" by simp
  from Suc.hyps(2) have m: "m = nat (n - (a + 1))" by simp
  from Suc.prems(4) [OF _ lt] obtain x where x: "retryable_failure c (doRequest a) = Some x"
    by auto
  have IH: "attempts (Do_loop c doRequest ctxDone (a + 1) (Some x)) = nat (n - (a + 1)) \<and>
            returned (Do_loop c doRequest ctxDone (a + 1) (Some x)) = Done (Inl (ContextError e)) \<and>
            events (Do_loop c doRequest ctxDone (a + 1) (Some x)) \<noteq> [] \<and>
            last (events (Do_loop c doRequest ctxDone (a + 1) (Some x))) = Wait (calculateBackoff c n)"
    using Suc.hyps(1) [OF m, of "Some x"] Suc.prems lt by simp
  have unf: "Do_loop c doRequest ctxDone a lastErr =
     (Do_loop c doRequest ctxDone (a + 1) (Some x))
       \<lparr>events := (if 0 < a then [Wait (calculateBackoff c a)] else []) @ Attempt a #
          events (Do_loop c doRequest ctxDone (a + 1) (Some x))\<rparr>"
    using le Suc.prems(5) [OF _ lt] x by (intro Do_loop_retry) simp_all
  from IH lt show ?case unfolding unf attempts_after returned_after events_after by simp
qed

text \<open>The same for the gRPC interceptor.\<close>

lemma retryInterceptor_loop_retry:
  assumes "a \<le> grpc_MaxRetries cfg"
    and "0 < a \<Longrightarrow> ctxDone a = None"
    and "grpc_retryable cfg (invoker a)"
  shows "retryInterceptor_loop name cfg invoker ctxDone a lastErr =
     (retryInterceptor_loop name cfg invoker ctxDone (a + 1) (invoker a))
       \<lparr>events := (if 0 < a then [Wait (grpc_calculateBackoff cfg a)] else []) @ Attempt a #
          events (retryInterceptor_loop name cfg invoker ctxDone (a + 1) (invoker a))\<rparr>"
proof -
  from assms(2) have c0: "(if 0 < a then ctxDone a else None) = None" by simp
  from assms(3) obtain err where err: "invoker a = Some err"
    "shouldRetryCode (status_Code err) (RetryableCodes cfg)"
    by (auto simp: grpc_retryable_def split: option.splits)
  with assms(1) c0 show ?thesis
    by (subst retryInterceptor_loop.simps) (simp add: Let_def)
qed

lemma retryInterceptor_loop_after_last:
  "\<not> a \<le> grpc_MaxRetries cfg \<Longrightarrow>
   retryInterceptor_loop name cfg invoker ctxDone a lastErr =
     \<lparr>returned = Done (Some (GrpcServiceUnavailableError name lastErr)), events = []\<rparr>"
  by (subst retryInterceptor_loop.simps) (simp add: grpc_NewServiceUnavailableError_def)

lemma retryInterceptor_loop_cancel_now:
  "a \<le> grpc_MaxRetries cfg \<Longrightarrow> 0 < a \<Longrightarrow> ctxDone a = Some e \<Longrightarrow>
   retryInterceptor_loop name cfg invoker ctxDone a lastErr =
     \<lparr>returned = Done (Some (GrpcContextError e)),
      events = [Wait (grpc_calculateBackoff cfg a)]\<rparr>"
  by (subst retryInterceptor_loop.simps) simp

lemma retryInterceptor_loop_exhausted:
  assumes "\<And>i. a \<le> i \<Longrightarrow> i \<le> grpc_MaxRetries cfg \<Longrightarrow> grpc_retryable cfg (invoker i)"
    and "\<And>i. a \<le> i \<Longrightarrow> i \<le> grpc_MaxRetries cfg \<Longrightarrow> 0 < i \<Longrightarrow> ctxDone i = None"
  shows "attempts (retryInterceptor_loop name cfg invoker ctxDone a lastErr) =
           nat (grpc_MaxRetries cfg + 1 - a) \<and>
         returned (retryInterceptor_loop name cfg invoker ctxDone a lastErr) =
           Done (Some (GrpcServiceUnavailableError name
             (if a \<le> grpc_MaxRetries cfg then invoker (grpc_MaxRetries cfg) else lastErr)))"
  using assms
proof (induction "nat (grpc_MaxRetries cfg + 1 - a)" arbitrary: a lastErr)
  case 0
  then have "\<not> a \<le> grpc_MaxRetries cfg" by simp
  then show ?case
    by (simp add: retryInterceptor_loop_after_last attempts_no_attempt)
next
  case (Suc n)
  then have le: "a \<le> grpc_MaxRetries cfg" by simp
  from Suc.hyps(2) have n: "n = nat (grpc_MaxRetries cfg + 1 - (a + 1))" by simp
  have IH: "attempts (retryInterceptor_loop name cfg invoker ctxDone (a + 1) (invoker a)) =
              nat (grpc_MaxRetries cfg + 1 - (a + 1)) \<and>
            returned (retryInterceptor_loop name cfg invoker ctxDone (a + 1) (invoker a)) =
              Done (Some (GrpcServiceUnavailableError name
                (if a + 1 \<le> grpc_MaxRetries cfg then invoker (grpc_MaxRetries cfg)
                 else invoker a)))"
    using Suc.hyps(1) [OF n, of "invoker a"] Suc.prems by simp
  have unf: "retryInterceptor_loop name cfg invoker ctxDone a lastErr =
     (retryInterceptor_loop name cfg invoker ctxDone (a + 1) (invoker a))
       \<lparr>events := (if 0 < a then [Wait (grpc_calculateBackoff cfg a)] else []) @ Attempt a #
          events (retryInterceptor_loop name cfg invoker ctxDone (a + 1) (invoker a))\<rparr>"
    using le Suc.prems(2) [OF _ le] Suc.prems(1) [OF _ le]
    by (intro retryInterceptor_loop_retry) simp_all
  show ?case
  proof (cases "a + 1 \<le> grpc_MaxRetries cfg")
    case True
    with IH le show ?thesis unfolding unf attempts_after returned_after by simp
  next
    case False
    with le have "grpc_MaxRetries cfg = a" by simp
    with IH le show ?thesis unfolding unf attempts_after returned_after by simp
  qed
qed

lemma retryInterceptor_loop_cancelled:
  assumes "a \<le> n" and "0 < n" and "n \<le> grpc_MaxRetries cfg"
    and "\<And>i. a \<le> i \<Longrightarrow> i < n \<Longrightarrow> grpc_retryable cfg (invoker i)"
    and "\<And>i. a \<le> i \<Longrightarrow> i < n \<Longrightarrow> 0 < i \<Longrightarrow> ctxDone i = None"
    and "ctxDone n = Some e"
  shows "attempts (retryInterceptor_loop name cfg invoker ctxDone a lastErr) = nat (n - a) \<and>
         returned (retryInterceptor_loop name cfg invoker ctxDone a lastErr) =
           Done (Some (GrpcContextError e)) \<and>
         events (retryInterceptor_loop name cfg invoker ctxDone a lastErr) \<noteq> [] \<and>
         last (events (retryInterceptor_loop name cfg invoker ctxDone a lastErr)) =
           Wait (grpc_calculateBackoff cfg n)"
  using assms
proof (induction "nat (n - a)" arbitrary: a lastErr)
  case 0
  then have "a = n" by simp
  with 0 show ?case
    by (simp add: retryInterceptor_loop_cancel_now attempts_no_attempt)
next
  case (Suc m)
  then have lt: "a < n" by simp
  with Suc.prems have le: "a \<le> grpc_MaxRetries cfg" by simp
  from Suc.hyps(2) have m: "m = nat (n - (a + 1))" by simp
  have IH: "attempts (retryInterceptor_loop name cfg invoker ctxDone (a + 1) (invoker a)) =
              nat (n - (a + 1)) \<and>
            returned (retryInterceptor_loop name cfg invoker ctxDone (a + 1) (invoker a)) =
              Done (Some (GrpcContextError e)) \<and>
            events (retryInterceptor_loop name cfg invoker ctxDone (a + 1) (invoker a)) \<noteq> [] \<and>
            last (events (retryInterceptor_loop name cfg invoker ctxDone (a + 1) (invoker a))) =
              Wait (grpc_calculateBackoff cfg n)"
    using Suc.hyps(1) [OF m, of "invoker a"] Suc.prems lt by simp
  have unf: "retryInterceptor_loop name cfg invoker ctxDone a lastErr =
     (retryInterceptor_loop name cfg invoker ctxDone (a + 1) (invoker a))
       \<lparr>events := (if 0 < a then [Wait (grpc_calculateBackoff cfg a)] else []) @ Attempt a #
          events (retryInterceptor_loop name cfg invoker ctxDone (a + 1) (invoker a))\<rparr>"
    using le Suc.prems(5) [OF _ lt] Suc.prems(4) [OF _ lt]
    by (intro retryInterceptor_loop_retry) simp_all
  from IH lt show ?case unfolding unf attempts_after returned_after events_after by simp
qed

subsection \<open>Powers of two, exponents, rounding to an integer\<close>

lemma pow2_powi: "pow2 e = 2 powi e"
  by (simp add: pow2_def power_int_def power_inverse field_simps)

lemma pow2_pos: "0 < pow2 e"
  by (simp add: pow2_def)

lemma pow2_add: "pow2 (a + b) = pow2 a * pow2 b"
  by (simp add: pow2_powi power_int_add)

lemma pow2_mono: "a \<le> b \<Longrightarrow> pow2 a \<le> pow2 b"
  by (simp add: pow2_powi power_int_increasing)

lemma pow2_strict_mono: "a < b \<Longrightarrow> pow2 a < pow2 b"
  by (simp add: pow2_powi power_int_strict_increasing)

lemma pow2_nat: "0 \<le> e \<Longrightarrow> pow2 e = 2 ^ nat e"
  by (simp add: pow2_def)

lemma pow2_0: "pow2 0 = 1"
  by (simp add: pow2_def)

lemma pow2_Suc: "pow2 (e + 1) = 2 * pow2 e"
  by (simp add: pow2_powi power_int_add_1)

lemma ilog2_bounds:
  assumes "0 < x"
  shows "pow2 (ilog2 x) \<le> x \<and> x < pow2 (ilog2 x + 1)"
proof (cases "1 \<le> x")
  case True
  define k where "k = \<lfloor>x\<rfloor>"
  from True have k1: "1 \<le> k" by (simp add: k_def le_floor_iff)
  then have kpos: "0 < k" by simp
  from bitlen_bounds [OF kpos] have b: "2 ^ nat (bitlen k - 1) \<le> k" "k < 2 ^ nat (bitlen k)"
    by simp_all
  from kpos have b1: "1 \<le> bitlen k"
    using bitlen_nonneg [of k] bitlen_eq_zero_iff [of k] by (cases "bitlen k = 0") auto
  have il: "ilog2 x = bitlen k - 1" using True by (simp add: ilog2_def k_def)
  have lo: "(of_int k :: rat) \<le> x" by (simp add: k_def)
  have hi: "x < of_int (k + 1)" unfolding k_def by linarith
  have "(2 :: rat) ^ nat (bitlen k - 1) = of_int (2 ^ nat (bitlen k - 1))" by simp
  also have "\<dots> \<le> of_int k" using b(1) by (simp only: of_int_le_iff)
  also note lo
  finally have l: "pow2 (ilog2 x) \<le> x" using b1 by (simp add: il pow2_nat)
  from b(2) have "k + 1 \<le> 2 ^ nat (bitlen k)" by simp
  then have "(of_int (k + 1) :: rat) \<le> of_int (2 ^ nat (bitlen k))"
    by (simp only: of_int_le_iff)
  also have "\<dots> = 2 ^ nat (bitlen k)" by simp
  finally have "(of_int (k + 1) :: rat) \<le> 2 ^ nat (bitlen k)" .
  with hi have "x < 2 ^ nat (bitlen k)" by (rule less_le_trans)
  then have h: "x < pow2 (ilog2 x + 1)" using b1 by (simp add: il pow2_nat)
  from l h show ?thesis by simp
next
  case False
  define y where "y = 1 / x"
  define m where "m = \<lceil>y\<rceil>"
  from False assms have y1: "1 < y" by (simp add: y_def)
  then have m2: "2 \<le> m" unfolding m_def by linarith
  then have mpos: "0 < m - 1" by simp
  from bitlen_bounds [OF mpos] have b: "2 ^ nat (bitlen (m - 1) - 1) \<le> m - 1"
    "m - 1 < 2 ^ nat (bitlen (m - 1))" by simp_all
  from mpos have b1: "1 \<le> bitlen (m - 1)"
    using bitlen_nonneg [of "m - 1"] bitlen_eq_zero_iff [of "m - 1"]
    by (cases "bitlen (m - 1) = 0") auto
  have il: "ilog2 x = - bitlen (m - 1)" using False by (simp add: ilog2_def m_def y_def)
  have ym: "y \<le> of_int m" by (simp add: m_def)
  have my: "of_int (m - 1) < y" unfolding m_def by linarith
  from b(2) have "m \<le> 2 ^ nat (bitlen (m - 1))" by simp
  then have "(of_int m :: rat) \<le> of_int (2 ^ nat (bitlen (m - 1)))" by (simp only: of_int_le_iff)
  also have "\<dots> = 2 ^ nat (bitlen (m - 1))" by simp
  finally have "(of_int m :: rat) \<le> 2 ^ nat (bitlen (m - 1))" .
  with ym have yhi: "y \<le> 2 ^ nat (bitlen (m - 1))" by (rule order_trans)
  have "(2 :: rat) ^ nat (bitlen (m - 1) - 1) = of_int (2 ^ nat (bitlen (m - 1) - 1))" by simp
  also have "\<dots> \<le> of_int (m - 1)" using b(1) by (simp only: of_int_le_iff)
  also note my
  finally have ylo: "2 ^ nat (bitlen (m - 1) - 1) < y" .
  have xy: "x = 1 / y" using assms by (simp add: y_def)
  have p1: "pow2 (- bitlen (m - 1)) = 1 / 2 ^ nat (bitlen (m - 1))"
    using b1 by (simp add: pow2_def)
  have p2: "pow2 (- bitlen (m - 1) + 1) = 1 / 2 ^ nat (bitlen (m - 1) - 1)"
  proof (cases "bitlen (m - 1) = 1")
    case True
    then show ?thesis by (simp add: pow2_def)
  next
    case False
    with b1 have "\<not> 0 \<le> - bitlen (m - 1) + 1" by simp
    moreover have "nat (- (- bitlen (m - 1) + 1)) = nat (bitlen (m - 1) - 1)" by simp
    ultimately show ?thesis by (simp add: pow2_def)
  qed
  have "pow2 (ilog2 x) = 1 / 2 ^ nat (bitlen (m - 1))" by (simp only: il p1)
  also have "\<dots> \<le> 1 / y" using yhi y1 by (simp add: field_simps)
  finally have l: "pow2 (ilog2 x) \<le> x" by (simp only: xy)
  have "1 / y < 1 / 2 ^ nat (bitlen (m - 1) - 1)" using ylo y1 by (simp add: field_simps)
  also have "\<dots> = pow2 (ilog2 x + 1)" by (simp only: il p2)
  finally have h: "x < pow2 (ilog2 x + 1)" by (simp only: xy)
  from l h show ?thesis by simp
qed

lemma ilog2_unique:
  assumes "0 < x" and "pow2 e \<le> x" and "x < pow2 (e + 1)"
  shows "ilog2 x = e"
proof (rule ccontr)
  assume ne: "ilog2 x \<noteq> e"
  from ilog2_bounds [OF assms(1)] have b: "pow2 (ilog2 x) \<le> x" "x < pow2 (ilog2 x + 1)"
    by simp_all
  show False
  proof (cases "ilog2 x < e")
    case True
    then have "pow2 (ilog2 x + 1) \<le> pow2 e" by (intro pow2_mono) simp
    with b(2) assms(2) show False by simp
  next
    case False
    with ne have "e + 1 \<le> ilog2 x" by simp
    then have "pow2 (e + 1) \<le> pow2 (ilog2 x)" by (rule pow2_mono)
    with b(1) assms(3) show False by simp
  qed
qed

lemma ilog2_mono:
  assumes "0 < x" and "x \<le> y"
  shows "ilog2 x \<le> ilog2 y"
proof (rule ccontr)
  assume "\<not> ilog2 x \<le> ilog2 y"
  then have "ilog2 y + 1 \<le> ilog2 x" by simp
  then have "pow2 (ilog2 y + 1) \<le> pow2 (ilog2 x)" by (rule pow2_mono)
  moreover from assms have "0 < y" by simp
  ultimately show False
    using ilog2_bounds [OF assms(1)] ilog2_bounds [OF \<open>0 < y\<close>] assms(2) by simp
qed

lemma ilog2_1: "ilog2 1 = 0"
  by (rule ilog2_unique) (simp_all add: pow2_def)

lemma ilog2_nonneg: "1 \<le> x \<Longrightarrow> 0 \<le> ilog2 x"
  using ilog2_mono [of 1 x] by (simp add: ilog2_1)

lemma rne_of_int: "rne (of_int k) = k"
  by (simp add: rne_def)

lemma rne_mono:
  assumes "x \<le> y"
  shows "rne x \<le> rne y"
proof (cases "\<lfloor>x\<rfloor> = \<lfloor>y\<rfloor>")
  case True
  with assms have "x - of_int \<lfloor>x\<rfloor> \<le> y - of_int \<lfloor>y\<rfloor>" by simp
  with True show ?thesis by (auto simp: rne_def Let_def)
next
  case False
  with assms have "\<lfloor>x\<rfloor> < \<lfloor>y\<rfloor>" by (simp add: floor_mono order.strict_iff_order)
  moreover have "rne x \<le> \<lfloor>x\<rfloor> + 1" by (simp add: rne_def Let_def)
  moreover have "\<lfloor>y\<rfloor> \<le> rne y" by (simp add: rne_def Let_def)
  ultimately show ?thesis by simp
qed

lemma rne_ge: "of_int a \<le> x \<Longrightarrow> a \<le> rne x"
  using rne_mono [of "of_int a" x] by (simp add: rne_of_int)

lemma rne_le: "x \<le> of_int b \<Longrightarrow> rne x \<le> b"
  using rne_mono [of x "of_int b"] by (simp add: rne_of_int)

subsection \<open>Rounding to 53 bits, from 1 upwards\<close>

lemma round_pos_normal:
  "1 \<le> x \<Longrightarrow>
   round_pos x = of_int (rne (x / pow2 (ilog2 x - 52))) * pow2 (ilog2 x - 52)"
  using ilog2_nonneg [of x] by (simp add: round_pos_def Let_def max_def)

lemma pow2_split: "pow2 e = pow2 (e - 52) * 2 ^ 52"
proof -
  have "pow2 e = pow2 ((e - 52) + 52)" by simp
  also have "\<dots> = pow2 (e - 52) * pow2 52" by (rule pow2_add)
  finally show ?thesis by (simp add: pow2_def)
qed

lemma significand_bounds:
  assumes "0 < x"
  shows "2 ^ 52 \<le> x / pow2 (ilog2 x - 52)" and "x / pow2 (ilog2 x - 52) < 2 ^ 53"
proof -
  have u: "0 < pow2 (ilog2 x - 52)" by (rule pow2_pos)
  from ilog2_bounds [OF assms] have lo: "pow2 (ilog2 x) \<le> x" and hi: "x < pow2 (ilog2 x + 1)"
    by simp_all
  from lo have "pow2 (ilog2 x - 52) * 2 ^ 52 \<le> x" by (simp only: pow2_split [symmetric])
  with u show "2 ^ 52 \<le> x / pow2 (ilog2 x - 52)" by (simp add: field_simps)
  from hi have "x < 2 * (pow2 (ilog2 x - 52) * 2 ^ 52)"
    by (simp only: pow2_Suc pow2_split [symmetric])
  with u show "x / pow2 (ilog2 x - 52) < 2 ^ 53" by (simp add: field_simps)
qed

lemma rne_significand_bounds:
  assumes "0 < x"
  shows "2 ^ 52 \<le> rne (x / pow2 (ilog2 x - 52))" and "rne (x / pow2 (ilog2 x - 52)) \<le> 2 ^ 53"
proof -
  have "(of_int (2 ^ 52) :: rat) \<le> x / pow2 (ilog2 x - 52)"
    using significand_bounds(1) [OF assms] by simp
  then show "2 ^ 52 \<le> rne (x / pow2 (ilog2 x - 52))" by (rule rne_ge)
  have "x / pow2 (ilog2 x - 52) \<le> (of_int (2 ^ 53) :: rat)"
    using significand_bounds(2) [OF assms] by simp
  then show "rne (x / pow2 (ilog2 x - 52)) \<le> 2 ^ 53" by (rule rne_le)
qed

lemma round_pos_bounds:
  assumes "1 \<le> x"
  shows "pow2 (ilog2 x) \<le> round_pos x" and "round_pos x \<le> pow2 (ilog2 x + 1)"
proof -
  from assms have pos: "0 < x" by simp
  have u: "0 < pow2 (ilog2 x - 52)" by (rule pow2_pos)
  from rne_significand_bounds(1) [OF pos]
  have "(of_int (2 ^ 52) :: rat) \<le> of_int (rne (x / pow2 (ilog2 x - 52)))"
    by (simp only: of_int_le_iff)
  then have "(2 ^ 52 :: rat) * pow2 (ilog2 x - 52)
      \<le> of_int (rne (x / pow2 (ilog2 x - 52))) * pow2 (ilog2 x - 52)"
    using u by (intro mult_right_mono) simp_all
  then show "pow2 (ilog2 x) \<le> round_pos x"
    by (simp add: round_pos_normal [OF assms] pow2_split [of "ilog2 x"] mult.commute)
  from rne_significand_bounds(2) [OF pos]
  have "(of_int (rne (x / pow2 (ilog2 x - 52))) :: rat) \<le> of_int (2 ^ 53)"
    by (simp only: of_int_le_iff)
  then have "of_int (rne (x / pow2 (ilog2 x - 52))) * pow2 (ilog2 x - 52)
      \<le> (2 ^ 53 :: rat) * pow2 (ilog2 x - 52)"
    using u by (intro mult_right_mono) simp_all
  then show "round_pos x \<le> pow2 (ilog2 x + 1)"
    by (simp add: round_pos_normal [OF assms] pow2_Suc pow2_split [of "ilog2 x"] mult.commute)
qed

lemma round_pos_ge_1: "1 \<le> x \<Longrightarrow> 1 \<le> round_pos x"
proof -
  assume x: "1 \<le> x"
  have "1 = pow2 0" by (simp add: pow2_def)
  also have "\<dots> \<le> pow2 (ilog2 x)" using ilog2_nonneg [OF x] by (rule pow2_mono)
  also have "\<dots> \<le> round_pos x" by (rule round_pos_bounds(1) [OF x])
  finally show ?thesis .
qed

lemma round_pos_mono:
  assumes "1 \<le> x" and "x \<le> y"
  shows "round_pos x \<le> round_pos y"
proof (cases "ilog2 x = ilog2 y")
  case True
  from assms have y: "1 \<le> y" by simp
  have u: "0 < pow2 (ilog2 y - 52)" by (rule pow2_pos)
  with assms(2) have "x / pow2 (ilog2 y - 52) \<le> y / pow2 (ilog2 y - 52)"
    by (simp add: divide_right_mono)
  then have "rne (x / pow2 (ilog2 y - 52)) \<le> rne (y / pow2 (ilog2 y - 52))" by (rule rne_mono)
  then have "(of_int (rne (x / pow2 (ilog2 y - 52))) :: rat)
      \<le> of_int (rne (y / pow2 (ilog2 y - 52)))" by (simp only: of_int_le_iff)
  with u show ?thesis
    by (simp add: round_pos_normal [OF assms(1)] round_pos_normal [OF y] True mult_right_mono)
next
  case False
  from assms have y: "1 \<le> y" and pos: "0 < x" by simp_all
  from False ilog2_mono [OF pos assms(2)] have "ilog2 x + 1 \<le> ilog2 y" by simp
  then have "pow2 (ilog2 x + 1) \<le> pow2 (ilog2 y)" by (rule pow2_mono)
  with round_pos_bounds(2) [OF assms(1)] round_pos_bounds(1) [OF y] show ?thesis by simp
qed

lemma round_pos_exact:
  assumes "1 \<le> x" and "x / pow2 (ilog2 x - 52) = of_int m"
  shows "round_pos x = x"
proof -
  have u: "pow2 (ilog2 x - 52) \<noteq> 0" using pow2_pos [of "ilog2 x - 52"] by simp
  have "round_pos x = of_int m * pow2 (ilog2 x - 52)"
    by (simp add: round_pos_normal [OF assms(1)] assms(2) rne_of_int)
  also have "\<dots> = x" using assms(2) u by (simp add: field_simps)
  finally show ?thesis .
qed

lemma round_pos_idem:
  assumes "1 \<le> x"
  shows "round_pos (round_pos x) = round_pos x"
proof -
  define u where "u = pow2 (ilog2 x - 52)"
  define m where "m = rne (x / u)"
  from assms have pos: "0 < x" by simp
  have upos: "0 < u" unfolding u_def by (rule pow2_pos)
  have y: "round_pos x = of_int m * u"
    by (simp add: round_pos_normal [OF assms] m_def u_def)
  have y1: "1 \<le> round_pos x" by (rule round_pos_ge_1 [OF assms])
  have m_lo: "2 ^ 52 \<le> m" and m_hi: "m \<le> 2 ^ 53"
    using rne_significand_bounds [OF pos] by (simp_all add: m_def u_def)
  have E: "pow2 (ilog2 x) = u * 2 ^ 52" unfolding u_def by (rule pow2_split)
  show ?thesis
  proof (cases "m = 2 ^ 53")
    case True
    then have yv: "round_pos x = pow2 (ilog2 x + 1)"
      by (simp add: y pow2_Suc E)
    have il: "ilog2 (round_pos x) = ilog2 x + 1"
    proof (rule ilog2_unique)
      show "0 < round_pos x" using y1 by simp
      show "pow2 (ilog2 x + 1) \<le> round_pos x" by (simp add: yv)
      show "round_pos x < pow2 (ilog2 x + 1 + 1)"
        unfolding yv by (rule pow2_strict_mono) simp
    qed
    have "round_pos x / pow2 (ilog2 (round_pos x) - 52) = of_int (2 ^ 52)"
    proof -
      have "ilog2 x + 1 - 52 = (ilog2 x - 52) + 1" by simp
      then have a: "pow2 (ilog2 (round_pos x) - 52) = 2 * u"
        by (simp only: il pow2_Suc u_def)
      have b: "round_pos x = 2 ^ 53 * u" by (simp add: y True)
      have "round_pos x / pow2 (ilog2 (round_pos x) - 52) = (2 ^ 53 * u) / (2 * u)"
        by (subst a) (simp only: b)
      also have "\<dots> = of_int (2 ^ 52)" using upos by simp
      finally show ?thesis .
    qed
    then show ?thesis by (rule round_pos_exact [OF y1])
  next
    case False
    with m_hi have lt: "m < 2 ^ 53" by simp
    have il: "ilog2 (round_pos x) = ilog2 x"
    proof (rule ilog2_unique)
      show "0 < round_pos x" using y1 by simp
      show "pow2 (ilog2 x) \<le> round_pos x" by (rule round_pos_bounds(1) [OF assms])
      from lt have "(of_int m :: rat) < of_int (2 ^ 53)" by (simp only: of_int_less_iff)
      then have "of_int m * u < 2 ^ 53 * u" using upos by simp
      then show "round_pos x < pow2 (ilog2 x + 1)" by (simp add: y pow2_Suc E)
    qed
    have "round_pos x / pow2 (ilog2 (round_pos x) - 52) = round_pos x / u"
      by (simp only: il u_def)
    also have "\<dots> = of_int m" using upos by (simp add: y)
    finally have "round_pos x / pow2 (ilog2 (round_pos x) - 52) = of_int m" .
    then show ?thesis by (rule round_pos_exact [OF y1])
  qed
qed

lemma round_pos_of_int:
  assumes "1 \<le> k" and "k \<le> 2 ^ 53"
  shows "round_pos (of_int k) = of_int k"
proof -
  from assms(1) have x1: "(1 :: rat) \<le> of_int k" by simp
  then have pos: "(0 :: rat) < of_int k" by simp
  define e where "e = ilog2 (of_int k)"
  have e0: "0 \<le> e" unfolding e_def by (rule ilog2_nonneg [OF x1])
  from ilog2_bounds [OF pos] have lo: "pow2 e \<le> of_int k" by (simp add: e_def)
  have "(of_int k :: rat) \<le> of_int (2 ^ 53)" using assms(2) by (simp only: of_int_le_iff)
  then have hi: "(of_int k :: rat) \<le> pow2 53" by (simp add: pow2_def)
  have e53: "e \<le> 53"
  proof (rule ccontr)
    assume "\<not> e \<le> 53"
    then have "pow2 53 < pow2 e" by (intro pow2_strict_mono) simp
    with lo hi show False by simp
  qed
  show ?thesis
  proof (cases "e \<le> 52")
    case True
    then have "pow2 (e - 52) = 1 / 2 ^ nat (52 - e)"
      by (cases "e = 52") (simp_all add: pow2_def)
    then have "of_int k / pow2 (e - 52) = (of_int (k * 2 ^ nat (52 - e)) :: rat)" by simp
    then show ?thesis unfolding e_def by (rule round_pos_exact [OF x1])
  next
    case False
    with e53 have e: "e = 53" by simp
    with lo hi have "(of_int k :: rat) = pow2 53" by simp
    then have "of_int k / pow2 (e - 52) = (of_int (2 ^ 52) :: rat)"
      by (simp add: e pow2_def)
    then show ?thesis unfolding e_def by (rule round_pos_exact [OF x1])
  qed
qed

lemma round_pos_double:
  assumes "1 \<le> x"
  shows "round_pos (2 * x) = 2 * round_pos x"
proof -
  from assms have pos: "0 < x" and x2: "1 \<le> 2 * x" by simp_all
  have il: "ilog2 (2 * x) = ilog2 x + 1"
  proof (rule ilog2_unique)
    show "0 < 2 * x" using pos by simp
    show "pow2 (ilog2 x + 1) \<le> 2 * x" using ilog2_bounds [OF pos] by (simp add: pow2_Suc)
    have "pow2 (ilog2 x + 1 + 1) = 2 * pow2 (ilog2 x + 1)" by (rule pow2_Suc)
    with ilog2_bounds [OF pos] show "2 * x < pow2 (ilog2 x + 1 + 1)" by simp
  qed
  have u: "pow2 (ilog2 x - 51) = 2 * pow2 (ilog2 x - 52)"
    using pow2_Suc [of "ilog2 x - 52"] by (simp add: algebra_simps)
  show ?thesis
    by (simp add: round_pos_normal [OF x2] round_pos_normal [OF assms] il u)
qed

subsection \<open>The back-off in \<^verbatim>\<open>float64\<close>\<close>

lemma calculateBackoff_backoff:
  "calculateBackoff c attempt =
     backoff (InitialDelay (retryConfig c)) (MaxDelay (retryConfig c))
       (BackoffFactor (retryConfig c)) attempt"
  by (simp add: calculateBackoff_def backoff_def clamp_delay_def Let_def split: option.splits)

lemma grpc_calculateBackoff_backoff:
  "grpc_calculateBackoff cfg attempt =
     backoff (grpc_InitialDelay cfg) (grpc_MaxDelay cfg) (grpc_BackoffFactor cfg) attempt"
  by (simp add: grpc_calculateBackoff_def backoff_def clamp_delay_def Let_def split: option.splits)

lemma pow2_1024_gt: "(2 :: rat) ^ 53 < pow2 1024"
  by (simp add: pow2_def)

lemma round_f64_ge_1:
  "1 \<le> x \<Longrightarrow> round_f64 x = (if pow2 1024 \<le> round_pos x then PInf else Fin (round_pos x))"
  by (simp add: round_f64_def)

lemma round_f64_le_m1:
  "x \<le> - 1 \<Longrightarrow>
   round_f64 x = (if pow2 1024 \<le> round_pos (- x) then NInf else Fin (- round_pos (- x)))"
  by (simp add: round_f64_def)

lemma round_f64_of_int:
  assumes "\<bar>k\<bar> \<le> 2 ^ 53"
  shows "round_f64 (of_int k) = Fin (of_int k)"
proof -
  consider "k = 0" | "1 \<le> k" | "k \<le> - 1" by linarith
  then show ?thesis
  proof cases
    case 1
    then show ?thesis by (simp add: round_f64_def)
  next
    case 2
    with assms have r: "round_pos (of_int k) = of_int k" by (intro round_pos_of_int) simp_all
    from assms have "k \<le> 2 ^ 53" by simp
    then have "(of_int k :: rat) \<le> of_int (2 ^ 53)" by (simp only: of_int_le_iff)
    then have "(of_int k :: rat) < pow2 1024" using pow2_1024_gt by simp
    with 2 r show ?thesis by (simp add: round_f64_ge_1)
  next
    case 3
    with assms have r: "round_pos (of_int (- k)) = of_int (- k)"
      by (intro round_pos_of_int) simp_all
    from assms have "- k \<le> 2 ^ 53" by simp
    then have "(of_int (- k) :: rat) \<le> of_int (2 ^ 53)" by (simp only: of_int_le_iff)
    then have "(of_int (- k) :: rat) < pow2 1024" using pow2_1024_gt by simp
    with 3 r show ?thesis by (simp add: round_f64_le_m1)
  qed
qed

lemma float64_of_int_exact: "\<bar>k\<bar> \<le> 2 ^ 53 \<Longrightarrow> float64_of_int k = Fin (of_int k)"
  by (simp add: float64_of_int_def round_f64_of_int)

lemma int64_of_float_of_int:
  "- (2 ^ 63) \<le> k \<Longrightarrow> k < 2 ^ 63 \<Longrightarrow> int64_of_float (Fin (of_int k)) = Some k"
  by (simp add: int64_of_float_def)

lemma pow_of_attempt:
  assumes "1 \<le> n" and "n \<le> 2 ^ 53"
  shows "pow f (float64_of_int (n - 1)) = Some (pow_loop f (nat (n - 1)))"
proof -
  from assms have "\<bar>n - 1\<bar> \<le> 2 ^ 53" by simp
  then have "float64_of_int (n - 1) = Fin (of_int (n - 1))" by (rule float64_of_int_exact)
  moreover from assms have "int64_of_float (Fin (of_int (n - 1))) = Some (n - 1)"
    by (intro int64_of_float_of_int) simp_all
  ultimately show ?thesis by (simp add: pow_def)
qed

lemma mult_ge_1: "(1 :: rat) \<le> a \<Longrightarrow> 1 \<le> b \<Longrightarrow> 1 \<le> a * b"
  using mult_mono [of 1 a 1 b] by simp

lemma at_least_1_one: "at_least_1 (Fin 1)"
  using round_pos_of_int [of 1] by (simp add: at_least_1_def)

lemma fmul_grows:
  assumes "at_least_1 v" and "1 < q"
  shows "at_least_1 (fmul v (Fin q)) \<and> fle v (fmul v (Fin q))"
proof (cases v)
  case (Fin r)
  with assms(1) have r: "1 \<le> r" "round_pos r = r" by (simp_all add: at_least_1_def)
  from r(1) assms(2) have rq: "1 \<le> r * q" by (intro mult_ge_1) simp_all
  from r(1) assms(2) have le: "r \<le> r * q" using mult_left_mono [of 1 q r] by simp
  have m: "fmul v (Fin q) = (if pow2 1024 \<le> round_pos (r * q) then PInf else Fin (round_pos (r * q)))"
    by (simp add: Fin round_f64_ge_1 [OF rq])
  have "r \<le> round_pos (r * q)" using round_pos_mono [OF r(1) le] by (simp add: r(2))
  with m Fin round_pos_ge_1 [OF rq] round_pos_idem [OF rq] show ?thesis
    by (simp add: at_least_1_def fle_def)
next
  case PInf
  with assms(2) show ?thesis by (simp add: at_least_1_def fle_def)
next
  case NInf
  with assms(1) show ?thesis by (simp add: at_least_1_def)
next
  case NaN
  with assms(1) show ?thesis by (simp add: at_least_1_def)
qed

lemma pow_loop_grows:
  assumes "1 < q"
  shows "at_least_1 (pow_loop (Fin q) k) \<and> fle (pow_loop (Fin q) k) (pow_loop (Fin q) (Suc k))"
proof (induction k)
  case 0
  from fmul_grows [OF at_least_1_one assms] show ?case by (simp add: at_least_1_one)
next
  case (Suc k)
  then have "at_least_1 (pow_loop (Fin q) (Suc k))"
    using fmul_grows [OF _ assms, of "pow_loop (Fin q) k"] by simp
  from fmul_grows [OF this assms] this show ?case by simp
qed

text \<open>The delay for a positive initial delay: the product with the power.\<close>

lemma delay_grows:
  assumes "1 \<le> i" and "at_least_1 p" and "at_least_1 p'" and "fle p p'"
  shows "at_least_1 (fmul (Fin (of_int i)) p) \<and>
         fle (fmul (Fin (of_int i)) p) (fmul (Fin (of_int i)) p')"
proof -
  from assms(1) have i1: "(1 :: rat) \<le> of_int i" by simp
  have one: "at_least_1 (fmul (Fin (of_int i)) v)" if "at_least_1 v" for v
  proof (cases v)
    case (Fin r)
    with that have "1 \<le> r" by (simp add: at_least_1_def)
    with i1 have ir: "1 \<le> of_int i * r" by (intro mult_ge_1)
    with Fin round_pos_ge_1 [OF ir] round_pos_idem [OF ir] show ?thesis
      by (simp add: round_f64_ge_1 at_least_1_def)
  next
    case PInf
    with assms(1) show ?thesis by (simp add: at_least_1_def)
  next
    case NInf
    with that show ?thesis by (simp add: at_least_1_def)
  next
    case NaN
    with that show ?thesis by (simp add: at_least_1_def)
  qed
  have two: "fle (fmul (Fin (of_int i)) p) (fmul (Fin (of_int i)) p')"
  proof (cases p')
    case PInf
    with assms(1) show ?thesis by (simp add: fle_def)
  next
    case (Fin r')
    with assms(4) obtain r where p: "p = Fin r" and le: "r \<le> r'"
      by (cases p) (simp_all add: fle_def)
    from assms(2) p have r1: "1 \<le> r" by (simp add: at_least_1_def)
    with i1 have ir: "1 \<le> of_int i * r" by (intro mult_ge_1)
    from le i1 have "of_int i * r \<le> of_int i * r'" by (simp add: mult_left_mono)
    from round_pos_mono [OF ir this] ir this Fin p show ?thesis
      by (simp add: round_f64_ge_1 fle_def)
  next
    case NInf
    with assms(3) show ?thesis by (simp add: at_least_1_def)
  next
    case NaN
    with assms(3) show ?thesis by (simp add: at_least_1_def)
  qed
  from one [OF assms(2)] two show ?thesis by simp
qed

text \<open>The clamp and the conversion, for a maximal delay that \<^verbatim>\<open>float64\<close> holds exactly.\<close>

lemma clamp_delay_PInf: "0 \<le> m \<Longrightarrow> m \<le> 2 ^ 53 \<Longrightarrow> clamp_delay m PInf = Some m"
  by (simp add: clamp_delay_def float64_of_int_exact)

lemma clamp_delay_Fin:
  assumes "0 \<le> m" and "m \<le> 2 ^ 53" and "0 \<le> d"
  shows "clamp_delay m (Fin d) = Some (if of_int m < d then m else \<lfloor>d\<rfloor>)"
proof (cases "of_int m < d")
  case True
  with assms show ?thesis by (simp add: clamp_delay_def float64_of_int_exact)
next
  case False
  then have "d \<le> of_int m" by simp
  then have "\<lfloor>d\<rfloor> \<le> m" using floor_mono [of d "of_int m"] by simp
  with assms False show ?thesis
    by (simp add: clamp_delay_def float64_of_int_exact int64_of_float_def)
qed

lemma clamp_delay_mono:
  assumes "0 \<le> m" and "m \<le> 2 ^ 53" and "at_least_1 v" and "at_least_1 w" and "fle v w"
  shows "\<exists>d d'. clamp_delay m v = Some d \<and> clamp_delay m w = Some d' \<and>
           0 \<le> d \<and> d \<le> d' \<and> d' \<le> m"
proof -
  have range: "\<exists>d. clamp_delay m x = Some d \<and> 0 \<le> d \<and> d \<le> m" if "at_least_1 x" for x
  proof (cases x)
    case (Fin r)
    with that have r: "0 \<le> r" by (simp add: at_least_1_def)
    have "\<lfloor>r\<rfloor> \<le> m" if "\<not> of_int m < r"
      using that floor_mono [of r "of_int m"] by simp
    with r assms(1) show ?thesis by (simp add: Fin clamp_delay_Fin [OF assms(1,2) r])
  next
    case PInf
    with assms(1,2) show ?thesis by (simp add: clamp_delay_PInf)
  next
    case NInf
    with that show ?thesis by (simp add: at_least_1_def)
  next
    case NaN
    with that show ?thesis by (simp add: at_least_1_def)
  qed
  show ?thesis
  proof (cases w)
    case PInf
    with range [OF assms(3)] assms(1,2) show ?thesis by (auto simp: clamp_delay_PInf)
  next
    case (Fin r')
    with assms(5) obtain r where v: "v = Fin r" and le: "r \<le> r'"
      by (cases v) (simp_all add: fle_def)
    from assms(3) v have r: "0 \<le> r" by (simp add: at_least_1_def)
    with le have r': "0 \<le> r'" by simp
    have fl: "\<lfloor>r\<rfloor> \<le> \<lfloor>r'\<rfloor>" using le by (rule floor_mono)
    have top: "\<lfloor>r\<rfloor> \<le> m" if "\<not> of_int m < r"
      using that floor_mono [of r "of_int m"] by simp
    have top': "\<lfloor>r'\<rfloor> \<le> m" if "\<not> of_int m < r'"
      using that floor_mono [of r' "of_int m"] by simp
    from r r' le fl top top' assms(1) show ?thesis
      by (auto simp: v Fin clamp_delay_Fin [OF assms(1,2)])
  next
    case NInf
    with assms(4) show ?thesis by (simp add: at_least_1_def)
  next
    case NaN
    with assms(4) show ?thesis by (simp add: at_least_1_def)
  qed
qed

subsection \<open>The first delay, growth, and the factor 2\<close>

lemma backoff_first:
  assumes "0 \<le> i" and "i \<le> m" and "m \<le> 2 ^ 53"
  shows "backoff i m f 1 = Some i"
proof -
  from assms have ai: "\<bar>i\<bar> \<le> 2 ^ 53" and m0: "0 \<le> m" by simp_all
  have p: "pow f (float64_of_int (1 - 1)) = Some (Fin 1)"
    using pow_of_attempt [of 1 f] by simp
  have d: "fmul (float64_of_int i) (Fin 1) = Fin (of_int i)"
    using ai by (simp add: float64_of_int_exact round_f64_of_int)
  have "clamp_delay m (Fin (of_int i)) = Some i"
    using assms by (simp add: clamp_delay_Fin [OF m0 assms(3)])
  with p d show ?thesis by (simp add: backoff_def)
qed

lemma backoff_grows:
  assumes "1 < q" and "1 \<le> i" and "i \<le> m" and "m \<le> 2 ^ 53" and "1 \<le> n" and "n < 2 ^ 53"
  shows "\<exists>d d'. backoff i m (Fin q) n = Some d \<and> backoff i m (Fin q) (n + 1) = Some d' \<and>
           0 \<le> d \<and> d \<le> d' \<and> d' \<le> m"
proof -
  define k where "k = nat (n - 1)"
  from assms have ai: "\<bar>i\<bar> \<le> 2 ^ 53" and m0: "0 \<le> m" by simp_all
  have p: "pow (Fin q) (float64_of_int (n - 1)) = Some (pow_loop (Fin q) k)"
    using assms(5,6) by (simp add: pow_of_attempt k_def)
  have "nat (n + 1 - 1) = Suc k" using assms(5) by (simp add: k_def nat_add_distrib)
  then have p': "pow (Fin q) (float64_of_int (n + 1 - 1)) = Some (pow_loop (Fin q) (Suc k))"
    using assms(5,6) pow_of_attempt [of "n + 1" "Fin q"] by simp
  from pow_loop_grows [OF assms(1)] have g: "at_least_1 (pow_loop (Fin q) k)"
    "fle (pow_loop (Fin q) k) (pow_loop (Fin q) (Suc k))" "at_least_1 (pow_loop (Fin q) (Suc k))"
    by blast+
  from pow_loop_grows [OF assms(1), of "Suc k"]
  have g': "fle (pow_loop (Fin q) (Suc k)) (pow_loop (Fin q) (Suc (Suc k)))"
    "at_least_1 (pow_loop (Fin q) (Suc (Suc k)))"
    using pow_loop_grows [OF assms(1), of "Suc (Suc k)"] by blast+
  from delay_grows [OF assms(2) g(1) g(3) g(2)] delay_grows [OF assms(2) g(3) g'(2) g'(1)]
  have d: "at_least_1 (fmul (Fin (of_int i)) (pow_loop (Fin q) k))"
    "at_least_1 (fmul (Fin (of_int i)) (pow_loop (Fin q) (Suc k)))"
    "fle (fmul (Fin (of_int i)) (pow_loop (Fin q) k))
         (fmul (Fin (of_int i)) (pow_loop (Fin q) (Suc k)))"
    by blast+
  from clamp_delay_mono [OF m0 assms(4) d(1) d(2) d(3)] p p' ai show ?thesis
    by (simp add: backoff_def float64_of_int_exact)
qed

lemma backoff_zero:
  assumes "1 < q" and "0 \<le> m" and "m \<le> 2 ^ 53" and "1 \<le> n" and "n < 2 ^ 53"
    and "pow_loop (Fin q) (nat n) \<noteq> PInf"
  shows "backoff 0 m (Fin q) n = Some 0 \<and> backoff 0 m (Fin q) (n + 1) = Some 0"
proof -
  define k where "k = nat (n - 1)"
  have nk: "nat n = Suc k" using assms(4) by (simp add: k_def)
  have p: "pow (Fin q) (float64_of_int (n - 1)) = Some (pow_loop (Fin q) k)"
    using assms(4,5) by (simp add: pow_of_attempt k_def)
  have "nat (n + 1 - 1) = Suc k" using assms(4) by (simp add: k_def nat_add_distrib)
  then have p': "pow (Fin q) (float64_of_int (n + 1 - 1)) = Some (pow_loop (Fin q) (Suc k))"
    using assms(4,5) pow_of_attempt [of "n + 1" "Fin q"] by simp
  from pow_loop_grows [OF assms(1)] have g: "at_least_1 (pow_loop (Fin q) k)"
    "at_least_1 (pow_loop (Fin q) (Suc k))" by blast+
  from assms(6) g(2) obtain r' where r': "pow_loop (Fin q) (Suc k) = Fin r'"
    by (cases "pow_loop (Fin q) (Suc k)") (simp_all add: nk at_least_1_def)
  have "pow_loop (Fin q) k \<noteq> PInf"
  proof
    assume "pow_loop (Fin q) k = PInf"
    then have "pow_loop (Fin q) (Suc k) = PInf" using assms(1) by simp
    with r' show False by simp
  qed
  with g(1) obtain r where r: "pow_loop (Fin q) k = Fin r"
    by (cases "pow_loop (Fin q) k") (simp_all add: at_least_1_def)
  have z: "float64_of_int 0 = Fin 0" by (simp add: float64_of_int_def round_f64_def)
  have f0: "fmul (Fin 0) (Fin x) = Fin 0" for x by (simp add: round_f64_def)
  have c: "clamp_delay m (Fin 0) = Some 0"
    using assms(2) by (simp add: clamp_delay_Fin [OF assms(2,3)])
  from p p' show ?thesis
    by (simp only: backoff_def option.case z r f0 c) (simp only: r' f0 c)
qed

lemma round_pos_scaled:
  assumes "1 \<le> x" and "round_pos x = x"
  shows "round_pos (x * 2 ^ k) = x * 2 ^ k"
proof (induction k)
  case 0
  with assms show ?case by simp
next
  case (Suc k)
  from assms(1) have "1 \<le> x * 2 ^ k" by (intro mult_ge_1) simp_all
  from round_pos_double [OF this] Suc show ?case by (simp add: mult.commute mult.left_commute)
qed

lemma round_f64_scaled:
  assumes "1 \<le> x" and "round_pos x = x"
  shows "round_f64 (x * 2 ^ k) = (if pow2 1024 \<le> x * 2 ^ k then PInf else Fin (x * 2 ^ k))"
proof -
  from assms(1) have "1 \<le> x * 2 ^ k" by (intro mult_ge_1) simp_all
  then show ?thesis by (simp add: round_f64_ge_1 round_pos_scaled [OF assms])
qed

lemma pow_loop_2: "pow_loop (Fin 2) k = (if pow2 1024 \<le> 2 ^ k then PInf else Fin (2 ^ k))"
proof (induction k)
  case 0
  then show ?case by (simp add: pow2_def)
next
  case (Suc k)
  have one: "round_pos 1 = (1 :: rat)" using round_pos_of_int [of 1] by simp
  have r: "round_f64 (2 ^ Suc k) = (if pow2 1024 \<le> 2 ^ Suc k then PInf else Fin (2 ^ Suc k))"
    using round_f64_scaled [of 1 "Suc k"] one by simp
  show ?case
  proof (cases "pow2 1024 \<le> (2 :: rat) ^ k")
    case True
    moreover have "(2 :: rat) ^ k \<le> 2 ^ Suc k" by simp
    ultimately have "pow2 1024 \<le> (2 :: rat) ^ Suc k" by (rule order_trans)
    with True Suc show ?thesis by simp
  next
    case False
    with Suc have "pow_loop (Fin 2) (Suc k) = round_f64 (2 ^ k * 2)" by simp
    also have "\<dots> = round_f64 (2 ^ Suc k)" by (simp add: mult.commute)
    finally show ?thesis by (simp only: r)
  qed
qed

lemma backoff_factor_2:
  assumes "1 \<le> i" and "i \<le> m" and "m \<le> 2 ^ 53" and "1 \<le> n" and "n \<le> 2 ^ 53"
  shows "backoff i m (Fin 2) n = Some (min (i * 2 ^ nat (n - 1)) m)"
proof -
  define k where "k = nat (n - 1)"
  from assms have ai: "\<bar>i\<bar> \<le> 2 ^ 53" and m0: "0 \<le> m" and i53: "i \<le> 2 ^ 53" by simp_all
  from assms(1) have i1: "(1 :: rat) \<le> of_int i" by simp
  have ri: "round_pos (of_int i) = of_int i" by (rule round_pos_of_int [OF assms(1) i53])
  have p: "pow (Fin 2) (float64_of_int (n - 1)) = Some (pow_loop (Fin 2) k)"
    using assms(4,5) by (simp add: pow_of_attempt k_def)
  have "(of_int m :: rat) \<le> of_int (2 ^ 53)" using assms(3) by (simp only: of_int_le_iff)
  then have mlt: "(of_int m :: rat) < pow2 1024" using pow2_1024_gt by simp
  have prod: "(of_int i :: rat) * 2 ^ k = of_int (i * 2 ^ k)" by simp
  have big: "min (i * 2 ^ k) m = m" if "pow2 1024 \<le> (of_int i :: rat) * 2 ^ k"
  proof -
    from that have "pow2 1024 \<le> (of_int (i * 2 ^ k) :: rat)" by (simp only: prod)
    with mlt have "(of_int m :: rat) < of_int (i * 2 ^ k)" by (rule less_le_trans)
    then have "m < i * 2 ^ k" by (simp only: of_int_less_iff)
    then show ?thesis by simp
  qed
  have d: "clamp_delay m (fmul (Fin (of_int i)) (pow_loop (Fin 2) k)) = Some (min (i * 2 ^ k) m)"
  proof (cases "pow2 1024 \<le> (2 :: rat) ^ k")
    case True
    have "1 * (2 :: rat) ^ k \<le> of_int i * 2 ^ k" using i1 by (intro mult_right_mono) simp_all
    then have "(2 :: rat) ^ k \<le> of_int i * 2 ^ k" by simp
    with True have "pow2 1024 \<le> (of_int i :: rat) * 2 ^ k" by (rule order_trans)
    from big [OF this] True assms(1) m0 assms(3) show ?thesis
      by (simp add: pow_loop_2 clamp_delay_PInf)
  next
    case False
    then have f: "fmul (Fin (of_int i)) (pow_loop (Fin 2) k) = round_f64 (of_int i * 2 ^ k)"
      by (simp add: pow_loop_2)
    show ?thesis
    proof (cases "pow2 1024 \<le> (of_int i :: rat) * 2 ^ k")
      case True
      from big [OF True] True m0 assms(3) show ?thesis
        by (simp only: f round_f64_scaled [OF i1 ri] if_True clamp_delay_PInf)
    next
      case False
      have nn: "(0 :: rat) \<le> of_int (i * 2 ^ k)" using assms(1) by simp
      have rf: "round_f64 (of_int i * 2 ^ k) = Fin (of_int i * 2 ^ k)"
        using False by (simp only: round_f64_scaled [OF i1 ri] if_False)
      have "clamp_delay m (fmul (Fin (of_int i)) (pow_loop (Fin 2) k)) =
          clamp_delay m (Fin (of_int (i * 2 ^ k)))"
        by (subst f, subst rf, simp only: prod)
      also have "\<dots> =
          Some (if (of_int m :: rat) < of_int (i * 2 ^ k) then m else \<lfloor>(of_int (i * 2 ^ k) :: rat)\<rfloor>)"
        by (rule clamp_delay_Fin [OF m0 assms(3) nn])
      also have "\<dots> = Some (min (i * 2 ^ k) m)"
        by (simp only: of_int_less_iff floor_of_int) (simp add: min_def)
      finally show ?thesis .
    qed
  qed
  have fi: "float64_of_int i = Fin (of_int i)" using ai by (rule float64_of_int_exact)
  from p d show ?thesis by (simp add: backoff_def fi k_def)
qed

section \<open>Results\<close>

text \<open>
  C6, as stated: after \<open>set(key, v, ttl)\<close> a \<open>get(key)\<close> later than the \<open>ttl\<close>
  returns absent. The memory cache does not do that for a \<open>ttl\<close> of zero: \<^verbatim>\<open>Set\<close>
  then takes the configured default (24 hours in \<^verbatim>\<open>DefaultOptions\<close>), and the value
  written at instant 1000 with \<open>ttl = 0\<close> is still returned at instant 2000.
\<close>

theorem cache_ttl_zero_counterexample:
  "(1000::int) + 0 < 2000 \<and>
   MemoryCache_Get (MemoryCache_Set (NewMemoryCache DefaultOptions) 1000 ''k'' ''v'' 0) 2000 ''k''
     = Inr ''v''"
  by (simp add: MemoryCache_Get_Set NewMemoryCache_def DefaultOptions_def Hour_def Minute_def
      Second_def Millisecond_def)

text \<open>
  C6, amended: for a positive \<open>ttl\<close>, written at a clock reading \<open>now\<close> that is not
  before the zero \<^verbatim>\<open>Time\<close>, a read up to the instant \<open>now + ttl\<close> returns the value
  and a read after it returns absent (\<^verbatim>\<open>ErrKeyExpired\<close> in the memory cache, nil in the
  token caches), with no sweep between the write and the read. In the token caches the
  read comes after the write has finished (\<open>now' \<le> t\<close>, where \<open>now'\<close> is the reading of
  the clean-up inside \<^verbatim>\<open>set\<close>). In the memory cache a write with the \<open>ttl\<close> zero is
  the write with the configured \<^verbatim>\<open>DefaultTTL\<close>: with a positive default the value is
  read up to \<open>now + DefaultTTL\<close> and absent after it. An entry whose resulting \<open>ttl\<close>
  is not positive (a negative \<open>ttl\<close>, or a zero \<open>ttl\<close> with a default that is not
  positive) is stored with the zero \<^verbatim>\<open>Time\<close> as its expiry and is read at every
  instant.
\<close>

theorem cache_ttl_read_time_expiry:
  assumes "0 < ttl" and "0 \<le> now"
  shows "(t \<le> now + ttl \<longrightarrow>
            MemoryCache_Get (MemoryCache_Set c now key val ttl) t key = Inr val) \<and>
         (now + ttl < t \<longrightarrow>
            MemoryCache_Get (MemoryCache_Set c now key val ttl) t key = Inl ErrKeyExpired) \<and>
         (now' \<le> t \<and> t \<le> now + ttl \<longrightarrow>
            TokenValidationCache_get (TokenValidationCache_set tc now now' token res ttl) t token
              = Some res) \<and>
         (now + ttl < t \<longrightarrow>
            TokenValidationCache_get (TokenValidationCache_set tc now now' token res ttl) t token
              = None) \<and>
         (now' \<le> t \<and> t \<le> now + ttl \<longrightarrow>
            grpcTokenCache_get (grpcTokenCache_set tc now now' token res ttl) t token = Some res) \<and>
         (now + ttl < t \<longrightarrow>
            grpcTokenCache_get (grpcTokenCache_set tc now now' token res ttl) t token = None) \<and>
         MemoryCache_Set c now key val 0 = MemoryCache_Set c now key val (DefaultTTL (options c)) \<and>
         (0 < DefaultTTL (options c) \<and> t \<le> now + DefaultTTL (options c) \<longrightarrow>
            MemoryCache_Get (MemoryCache_Set c now key val 0) t key = Inr val) \<and>
         (0 < DefaultTTL (options c) \<and> now + DefaultTTL (options c) < t \<longrightarrow>
            MemoryCache_Get (MemoryCache_Set c now key val 0) t key = Inl ErrKeyExpired) \<and>
         (ttl' < 0 \<or> (ttl' = 0 \<and> DefaultTTL (options c) \<le> 0) \<longrightarrow>
            items (MemoryCache_Set c now key val ttl') (buildKey c key) =
              Some \<lparr>item_value = val, item_expiresAt = 0\<rparr> \<and>
            MemoryCache_Get (MemoryCache_Set c now key val ttl') t key = Inr val)"
proof -
  from assms have nz: "now + ttl \<noteq> 0" and pos: "ttl \<noteq> 0" by simp_all
  have m1: "t \<le> now + ttl \<longrightarrow>
      MemoryCache_Get (MemoryCache_Set c now key val ttl) t key = Inr val"
    using assms by (simp add: MemoryCache_Get_Set Let_def)
  have m2: "now + ttl < t \<longrightarrow>
      MemoryCache_Get (MemoryCache_Set c now key val ttl) t key = Inl ErrKeyExpired"
    using assms nz by (simp add: MemoryCache_Get_Set Let_def)
  have t1: "now' \<le> t \<and> t \<le> now + ttl \<longrightarrow>
      TokenValidationCache_get (TokenValidationCache_set tc now now' token res ttl) t token
        = Some res"
    by (simp add: TokenValidationCache_get_set)
  have t2: "now + ttl < t \<longrightarrow>
      TokenValidationCache_get (TokenValidationCache_set tc now now' token res ttl) t token = None"
    by (simp add: TokenValidationCache_get_set)
  have g1: "now' \<le> t \<and> t \<le> now + ttl \<longrightarrow>
      grpcTokenCache_get (grpcTokenCache_set tc now now' token res ttl) t token = Some res"
    by (simp add: grpcTokenCache_get_set)
  have g2: "now + ttl < t \<longrightarrow>
      grpcTokenCache_get (grpcTokenCache_set tc now now' token res ttl) t token = None"
    by (simp add: grpcTokenCache_get_set)
  have z0: "MemoryCache_Set c now key val 0 = MemoryCache_Set c now key val (DefaultTTL (options c))"
    by (simp add: MemoryCache_Set_def Let_def)
  have z1: "0 < DefaultTTL (options c) \<and> t \<le> now + DefaultTTL (options c) \<longrightarrow>
      MemoryCache_Get (MemoryCache_Set c now key val 0) t key = Inr val"
    by (simp add: MemoryCache_Get_Set Let_def)
  have z2: "0 < DefaultTTL (options c) \<and> now + DefaultTTL (options c) < t \<longrightarrow>
      MemoryCache_Get (MemoryCache_Set c now key val 0) t key = Inl ErrKeyExpired"
    using assms(2) by (auto simp: MemoryCache_Get_Set Let_def)
  have n1: "ttl' < 0 \<or> (ttl' = 0 \<and> DefaultTTL (options c) \<le> 0) \<longrightarrow>
      items (MemoryCache_Set c now key val ttl') (buildKey c key) =
        Some \<lparr>item_value = val, item_expiresAt = 0\<rparr> \<and>
      MemoryCache_Get (MemoryCache_Set c now key val ttl') t key = Inr val"
  proof -
    have i: "ttl' < 0 \<or> (ttl' = 0 \<and> DefaultTTL (options c) \<le> 0) \<longrightarrow>
        items (MemoryCache_Set c now key val ttl') (buildKey c key) =
          Some \<lparr>item_value = val, item_expiresAt = 0\<rparr>"
      by (auto simp: MemoryCache_Set_def Let_def)
    have r: "ttl' < 0 \<or> (ttl' = 0 \<and> DefaultTTL (options c) \<le> 0) \<longrightarrow>
        MemoryCache_Get (MemoryCache_Set c now key val ttl') t key = Inr val"
      by (auto simp: MemoryCache_Get_Set Let_def)
    from i r show ?thesis by blast
  qed
  from m1 m2 t1 t2 g1 g2 z0 z1 z2 n1 show ?thesis by blast
qed

text \<open>
  The amended claim on a cache with the default options, written at instant 1000. With a
  five-minute \<open>ttl\<close>: read one minute later the value is there, read six minutes later
  it is absent. With the \<open>ttl\<close> zero, that is the default of 24 hours: read an hour
  later the value is there, read 25 hours later it is absent. With the \<open>ttl\<close> \<open>-1\<close>:
  the value is still there 25 hours later.
\<close>

theorem cache_ttl_read_time_expiry_witness:
  "(0::int) < 5 * Minute \<and> (0::int) \<le> 1000 \<and>
   MemoryCache_Get (MemoryCache_Set (NewMemoryCache DefaultOptions) 1000 ''k'' ''v'' (5 * Minute))
       (1000 + Minute) ''k'' = Inr ''v'' \<and>
   MemoryCache_Get (MemoryCache_Set (NewMemoryCache DefaultOptions) 1000 ''k'' ''v'' (5 * Minute))
       (1000 + 6 * Minute) ''k'' = Inl ErrKeyExpired \<and>
   TokenValidationCache_get (TokenValidationCache_set Map.empty 1000 1001 ''tok'' sample_result (5 * Minute))
       (1000 + Minute) ''tok'' = Some sample_result \<and>
   TokenValidationCache_get (TokenValidationCache_set Map.empty 1000 1001 ''tok'' sample_result (5 * Minute))
       (1000 + 6 * Minute) ''tok'' = None \<and>
   MemoryCache_Get (MemoryCache_Set (NewMemoryCache DefaultOptions) 1000 ''k'' ''v'' 0)
       (1000 + Hour) ''k'' = Inr ''v'' \<and>
   MemoryCache_Get (MemoryCache_Set (NewMemoryCache DefaultOptions) 1000 ''k'' ''v'' 0)
       (1000 + 25 * Hour) ''k'' = Inl ErrKeyExpired \<and>
   MemoryCache_Get (MemoryCache_Set (NewMemoryCache DefaultOptions) 1000 ''k'' ''v'' (- 1))
       (1000 + 25 * Hour) ''k'' = Inr ''v''"
proof -
  have h1: "(0::int) < 5 * Minute" and h2: "(0::int) \<le> 1000"
    by (simp_all add: Minute_def Second_def Millisecond_def)
  have a: "(1000 + Minute :: int) \<le> 1000 + 5 * Minute"
    and b: "(1000 + 5 * Minute :: int) < 1000 + 6 * Minute"
    and c: "(1001::int) \<le> 1000 + Minute"
    by (simp_all add: Minute_def Second_def Millisecond_def)
  have d: "0 < DefaultTTL (options (NewMemoryCache DefaultOptions))"
    and e: "1000 + Hour \<le> 1000 + DefaultTTL (options (NewMemoryCache DefaultOptions))"
    and f: "1000 + DefaultTTL (options (NewMemoryCache DefaultOptions)) < 1000 + 25 * Hour"
    by (simp_all add: NewMemoryCache_def DefaultOptions_def Hour_def Minute_def Second_def
        Millisecond_def)
  have g: "(- 1 :: int) < 0" by simp
  note t1 = cache_ttl_read_time_expiry [OF h1 h2, of "1000 + Minute"
      "NewMemoryCache DefaultOptions" "''k''" "''v''" 1001 Map.empty "''tok''" sample_result "- 1"]
  note t6 = cache_ttl_read_time_expiry [OF h1 h2, of "1000 + 6 * Minute"
      "NewMemoryCache DefaultOptions" "''k''" "''v''" 1001 Map.empty "''tok''" sample_result "- 1"]
  note th = cache_ttl_read_time_expiry [OF h1 h2, of "1000 + Hour"
      "NewMemoryCache DefaultOptions" "''k''" "''v''" 1001 Map.empty "''tok''" sample_result "- 1"]
  note td = cache_ttl_read_time_expiry [OF h1 h2, of "1000 + 25 * Hour"
      "NewMemoryCache DefaultOptions" "''k''" "''v''" 1001 Map.empty "''tok''" sample_result "- 1"]
  from t1 a c have p1: "MemoryCache_Get (MemoryCache_Set (NewMemoryCache DefaultOptions) 1000
        ''k'' ''v'' (5 * Minute)) (1000 + Minute) ''k'' = Inr ''v''"
    and p3: "TokenValidationCache_get (TokenValidationCache_set Map.empty 1000 1001 ''tok''
        sample_result (5 * Minute)) (1000 + Minute) ''tok'' = Some sample_result"
    by blast+
  from t6 b have p2: "MemoryCache_Get (MemoryCache_Set (NewMemoryCache DefaultOptions) 1000
        ''k'' ''v'' (5 * Minute)) (1000 + 6 * Minute) ''k'' = Inl ErrKeyExpired"
    and p4: "TokenValidationCache_get (TokenValidationCache_set Map.empty 1000 1001 ''tok''
        sample_result (5 * Minute)) (1000 + 6 * Minute) ''tok'' = None"
    by blast+
  from th d e have p5: "MemoryCache_Get (MemoryCache_Set (NewMemoryCache DefaultOptions) 1000
        ''k'' ''v'' 0) (1000 + Hour) ''k'' = Inr ''v''"
    by blast
  from td d f have p6: "MemoryCache_Get (MemoryCache_Set (NewMemoryCache DefaultOptions) 1000
        ''k'' ''v'' 0) (1000 + 25 * Hour) ''k'' = Inl ErrKeyExpired"
    by blast
  from td g have p7: "MemoryCache_Get (MemoryCache_Set (NewMemoryCache DefaultOptions) 1000
        ''k'' ''v'' (- 1)) (1000 + 25 * Hour) ''k'' = Inr ''v''"
    by blast
  from h1 h2 p1 p2 p3 p4 p5 p6 p7 show ?thesis by blast
qed

text \<open>
  C8. Scope matching in both packages: \<open>notifications:*\<close> satisfies
  \<open>notifications:send\<close>; \<open>*\<close> satisfies every required scope;
  \<open>notifications:send\<close> does not satisfy \<open>notifications:read\<close>; and in general a
  list of held scopes satisfies a required scope exactly when one of them is the
  universal wildcard, the required scope itself, or \<open>x:*\<close> for a required scope
  \<open>x:y\<close>.
\<close>

theorem scope_matching:
  "hasScopeInList [''notifications:*''] ''notifications:send'' \<and>
   HasScope [''notifications:*''] ''notifications:send'' \<and>
   hasScopeInList [''*''] required \<and> HasScope [''*''] required \<and>
   \<not> hasScopeInList [''notifications:send''] ''notifications:read'' \<and>
   \<not> HasScope [''notifications:send''] ''notifications:read'' \<and>
   (hasScopeInList scopes required \<longleftrightarrow> (\<exists>s \<in> set scopes. scope_satisfies s required)) \<and>
   (HasScope scopes required \<longleftrightarrow> (\<exists>s \<in> set scopes. scope_satisfies s required))"
proof -
  have a: "hasScopeInList [''notifications:*''] ''notifications:send''"
    by (simp add: Let_def)
  have b: "\<not> hasScopeInList [''notifications:send''] ''notifications:read''"
    by (simp add: Let_def)
  have c: "hasScopeInList [''*''] required" by simp
  show ?thesis
    using a b c by (simp only: HasScope_eq hasScopeInList_iff [of scopes required] simp_thms)
qed

theorem scope_matching_witness:
  "hasScopeInList [''users:read'', ''notifications:*''] ''notifications:send'' \<and>
   scope_satisfies ''notifications:*'' ''notifications:send'' \<and>
   \<not> hasScopeInList [''notifications:*''] ''notifications:send:now''"
proof -
  have a: "hasScopeInList [''users:read'', ''notifications:*''] ''notifications:send''"
    by (simp add: Let_def)
  have b: "\<not> hasScopeInList [''notifications:*''] ''notifications:send:now''"
    by (simp add: Let_def)
  from a scope_matching [of "''notifications:send''" "[''users:read'', ''notifications:*'']"]
  have "\<exists>s \<in> set [''users:read'', ''notifications:*'']. scope_satisfies s ''notifications:send''"
    by blast
  moreover have "\<not> scope_satisfies ''users:read'' ''notifications:send''"
    by (auto simp: scope_satisfies_def append_eq_Cons_conv)
  ultimately have "scope_satisfies ''notifications:*'' ''notifications:send''" by simp
  with a b show ?thesis by simp
qed

text \<open>
  C7. In both token validation paths a request whose authorization header is absent or
  does not start with \<open>Bearer \<close> is rejected at once as unauthenticated: nothing is
  looked up, the remote validator is not called, the cache is untouched. When the prefix
  is there, the cache look-up, the remote validation and the cache write all get the
  header without its prefix. (For the HTTP middleware the validation path is the one of
  an enabled middleware on a path that is not skipped.)
\<close>

theorem bearer_prefix_required:
  "(Enabled cfg \<and> \<not> (\<exists>path \<in> set (SkipPaths cfg). HasPrefix (Path c) path) \<and>
      (fiber_Get c ''Authorization'' = '''' \<or>
       \<not> HasPrefix (fiber_Get c ''Authorization'') ''Bearer '') \<longrightarrow>
      RemoteServiceAuthMiddleware cfg c cache t1 t2 t3 =
        \<lparr>outcome = Done (Status StatusUnauthorized
           [(''error'', ''Missing or invalid authorization header'')]),
         cache_after = cache, trace = []\<rparr>) \<and>
   (Enabled cfg \<and> \<not> (\<exists>path \<in> set (SkipPaths cfg). HasPrefix (Path c) path) \<and>
      fiber_Get c ''Authorization'' = ''Bearer '' @ token \<longrightarrow>
      trace (RemoteServiceAuthMiddleware cfg c cache t1 t2 t3) \<in>
        {[CacheLookup token], [CacheLookup token, RemoteValidate token],
         [CacheLookup token, RemoteValidate token, CacheStore token]}) \<and>
   (incoming_md ctx = None \<or>
      (\<exists>md. incoming_md ctx = Some md \<and>
         (md_Get md ''authorization'' = [] \<or>
          (\<exists>h rest. md_Get md ''authorization'' = h # rest \<and> \<not> HasPrefix h ''Bearer ''))) \<longrightarrow>
      (\<exists>msg. outcome (validateGRPCToken ctx gcfg cache t1 t2 t3) =
         Done (Inl (StatusError Unauthenticated msg))) \<and>
      cache_after (validateGRPCToken ctx gcfg cache t1 t2 t3) = cache \<and>
      trace (validateGRPCToken ctx gcfg cache t1 t2 t3) = []) \<and>
   (incoming_md ctx = Some md \<and> md_Get md ''authorization'' = (''Bearer '' @ token) # rest \<longrightarrow>
      trace (validateGRPCToken ctx gcfg cache t1 t2 t3) \<in>
        {[CacheLookup token], [CacheLookup token, RemoteValidate token],
         [CacheLookup token, RemoteValidate token, CacheStore token]})"
proof -
  have h1: "Enabled cfg \<and> \<not> (\<exists>path \<in> set (SkipPaths cfg). HasPrefix (Path c) path) \<and>
      (fiber_Get c ''Authorization'' = '''' \<or>
       \<not> HasPrefix (fiber_Get c ''Authorization'') ''Bearer '') \<longrightarrow>
      RemoteServiceAuthMiddleware cfg c cache t1 t2 t3 =
        \<lparr>outcome = Done (Status StatusUnauthorized
           [(''error'', ''Missing or invalid authorization header'')]),
         cache_after = cache, trace = []\<rparr>"
    by (simp add: RemoteServiceAuthMiddleware_def Let_def)
  have h2: "Enabled cfg \<and> \<not> (\<exists>path \<in> set (SkipPaths cfg). HasPrefix (Path c) path) \<and>
      fiber_Get c ''Authorization'' = ''Bearer '' @ token \<longrightarrow>
      trace (RemoteServiceAuthMiddleware cfg c cache t1 t2 t3) \<in>
        {[CacheLookup token], [CacheLookup token, RemoteValidate token],
         [CacheLookup token, RemoteValidate token, CacheStore token]}"
    by (simp add: RemoteServiceAuthMiddleware_def Let_def HasPrefix_def
        split: option.splits prod.splits)
  have g1: "incoming_md ctx = None \<or>
      (\<exists>md. incoming_md ctx = Some md \<and>
         (md_Get md ''authorization'' = [] \<or>
          (\<exists>h rest. md_Get md ''authorization'' = h # rest \<and> \<not> HasPrefix h ''Bearer ''))) \<longrightarrow>
      (\<exists>msg. outcome (validateGRPCToken ctx gcfg cache t1 t2 t3) =
         Done (Inl (StatusError Unauthenticated msg))) \<and>
      cache_after (validateGRPCToken ctx gcfg cache t1 t2 t3) = cache \<and>
      trace (validateGRPCToken ctx gcfg cache t1 t2 t3) = []"
    by (auto simp: validateGRPCToken_def Let_def TrimPrefix_def)
  have g2: "incoming_md ctx = Some md \<and>
      md_Get md ''authorization'' = (''Bearer '' @ token) # rest \<longrightarrow>
      trace (validateGRPCToken ctx gcfg cache t1 t2 t3) \<in>
        {[CacheLookup token], [CacheLookup token, RemoteValidate token],
         [CacheLookup token, RemoteValidate token, CacheStore token]}"
    by (simp add: validateGRPCToken_def Let_def TrimPrefix_def HasPrefix_def
        split: option.splits prod.splits)
  from h1 h2 g1 g2 show ?thesis by blast
qed

text \<open>
  The sample service: a request with a \<open>Basic\<close> header is answered 401 (HTTP) or
  \<open>Unauthenticated\<close> (gRPC) with no look-up and no remote call; a request with
  \<open>Bearer good\<close> looks up, validates and caches the token \<open>good\<close>.
\<close>

theorem bearer_prefix_required_witness:
  "RemoteServiceAuthMiddleware sample_cfg (sample_request ''Basic abc'') Map.empty 10 10 10 =
     \<lparr>outcome = Done (Status StatusUnauthorized
        [(''error'', ''Missing or invalid authorization header'')]),
      cache_after = Map.empty, trace = []\<rparr> \<and>
   trace (RemoteServiceAuthMiddleware sample_cfg (sample_request ''Bearer good'') Map.empty 10 10 10)
     = [CacheLookup ''good'', RemoteValidate ''good'', CacheStore ''good''] \<and>
   outcome (validateGRPCToken (sample_ctx ''Basic abc'') sample_grpc_cfg Map.empty 10 10 10)
     = Done (Inl (StatusError Unauthenticated ''invalid authorization format'')) \<and>
   trace (validateGRPCToken (sample_ctx ''Basic abc'') sample_grpc_cfg Map.empty 10 10 10) = [] \<and>
   trace (validateGRPCToken (sample_ctx ''Bearer good'') sample_grpc_cfg Map.empty 10 10 10)
     = [CacheLookup ''good'', RemoteValidate ''good'', CacheStore ''good'']"
proof -
  have en: "Enabled sample_cfg"
    and sk: "\<not> (\<exists>path \<in> set (SkipPaths sample_cfg). HasPrefix (Path (sample_request h)) path)"
    for h
    by (simp_all add: sample_cfg_def sample_request_def HasPrefix_def)
  have basic: "\<not> HasPrefix (fiber_Get (sample_request ''Basic abc'') ''Authorization'') ''Bearer ''"
    by (simp add: sample_request_def fiber_Get_def HasPrefix_def)
  have bearer: "fiber_Get (sample_request ''Bearer good'') ''Authorization'' = ''Bearer '' @ ''good''"
    by (simp add: sample_request_def fiber_Get_def)
  have gbasic: "\<exists>md. incoming_md (sample_ctx ''Basic abc'') = Some md \<and>
      (md_Get md ''authorization'' = [] \<or>
       (\<exists>h rest. md_Get md ''authorization'' = h # rest \<and> \<not> HasPrefix h ''Bearer ''))"
    by (simp add: sample_ctx_def md_Get_def HasPrefix_def)
  have gbearer: "incoming_md (sample_ctx ''Bearer good'') = Some [''authorization'' \<mapsto> [''Bearer good'']]
      \<and> md_Get [''authorization'' \<mapsto> [''Bearer good'']] ''authorization'' = (''Bearer '' @ ''good'') # []"
    by (simp add: sample_ctx_def md_Get_def)
  have a: "RemoteServiceAuthMiddleware sample_cfg (sample_request ''Basic abc'') Map.empty 10 10 10 =
     \<lparr>outcome = Done (Status StatusUnauthorized
        [(''error'', ''Missing or invalid authorization header'')]),
      cache_after = Map.empty, trace = []\<rparr>"
    and c: "(\<exists>msg. outcome (validateGRPCToken (sample_ctx ''Basic abc'') sample_grpc_cfg Map.empty 10 10 10)
        = Done (Inl (StatusError Unauthenticated msg))) \<and>
      trace (validateGRPCToken (sample_ctx ''Basic abc'') sample_grpc_cfg Map.empty 10 10 10) = []"
    using bearer_prefix_required [where cfg = sample_cfg and c = "sample_request ''Basic abc''"
        and ctx = "sample_ctx ''Basic abc''" and gcfg = sample_grpc_cfg and cache = Map.empty
        and ?t1.0 = 10 and ?t2.0 = 10 and ?t3.0 = 10]
      en sk basic gbasic by blast+
  have b: "trace (RemoteServiceAuthMiddleware sample_cfg (sample_request ''Bearer good'') Map.empty 10 10 10)
      \<in> {[CacheLookup ''good''], [CacheLookup ''good'', RemoteValidate ''good''],
         [CacheLookup ''good'', RemoteValidate ''good'', CacheStore ''good'']}"
    and d: "trace (validateGRPCToken (sample_ctx ''Bearer good'') sample_grpc_cfg Map.empty 10 10 10)
      \<in> {[CacheLookup ''good''], [CacheLookup ''good'', RemoteValidate ''good''],
         [CacheLookup ''good'', RemoteValidate ''good'', CacheStore ''good'']}"
    using bearer_prefix_required [where cfg = sample_cfg and c = "sample_request ''Bearer good''"
        and ctx = "sample_ctx ''Bearer good''" and gcfg = sample_grpc_cfg and cache = Map.empty
        and ?t1.0 = 10 and ?t2.0 = 10 and ?t3.0 = 10 and token = "''good''"
        and md = "[''authorization'' \<mapsto> [''Bearer good'']]" and rest = "[]"]
      en sk bearer gbearer by blast+
  have b': "CacheStore ''good'' \<in> set (trace (RemoteServiceAuthMiddleware sample_cfg
      (sample_request ''Bearer good'') Map.empty 10 10 10))"
    by (simp add: RemoteServiceAuthMiddleware_def sample_cfg_def sample_request_def
        sample_validator_def sample_result_def fiber_Get_def HasPrefix_def
        TokenValidationCache_get_def Let_def)
  have d': "CacheStore ''good'' \<in> set (trace (validateGRPCToken (sample_ctx ''Bearer good'')
      sample_grpc_cfg Map.empty 10 10 10))"
    by (simp add: validateGRPCToken_def sample_grpc_cfg_def sample_ctx_def md_Get_def
        sample_validator_def sample_result_def TrimPrefix_def HasPrefix_def
        grpcTokenCache_get_def Let_def)
  have c': "outcome (validateGRPCToken (sample_ctx ''Basic abc'') sample_grpc_cfg Map.empty 10 10 10)
      = Done (Inl (StatusError Unauthenticated ''invalid authorization format''))"
    by (simp add: validateGRPCToken_def sample_ctx_def md_Get_def TrimPrefix_def HasPrefix_def
        Let_def)
  from b b' have b'': "trace (RemoteServiceAuthMiddleware sample_cfg
      (sample_request ''Bearer good'') Map.empty 10 10 10)
      = [CacheLookup ''good'', RemoteValidate ''good'', CacheStore ''good'']" by auto
  from d d' have d'': "trace (validateGRPCToken (sample_ctx ''Bearer good'')
      sample_grpc_cfg Map.empty 10 10 10)
      = [CacheLookup ''good'', RemoteValidate ''good'', CacheStore ''good'']" by auto
  from a b'' c c' d'' show ?thesis by simp
qed

text \<open>
  C9. In both token validation paths the token cache is written only after the remote
  validator has returned a result without an error and the result says the token is
  valid. When the validator returns an error, or a result that is not valid, the request
  is rejected as unauthenticated and the cache is left as it was.
\<close>

theorem failed_validation_not_cached:
  "(CacheStore tok \<in> set (trace (RemoteServiceAuthMiddleware cfg c cache t1 t2 t3)) \<longrightarrow>
      (\<exists>v. TokenValidator cfg tok = (Some v, None) \<and> Valid v)) \<and>
   ((\<forall>tok'. CacheStore tok' \<notin> set (trace (RemoteServiceAuthMiddleware cfg c cache t1 t2 t3))) \<longrightarrow>
      cache_after (RemoteServiceAuthMiddleware cfg c cache t1 t2 t3) = cache) \<and>
   (Enabled cfg \<and> \<not> (\<exists>path \<in> set (SkipPaths cfg). HasPrefix (Path c) path) \<and>
      fiber_Get c ''Authorization'' = ''Bearer '' @ token \<and>
      TokenValidationCache_get cache t1 token = None \<and>
      (snd (TokenValidator cfg token) \<noteq> None \<or>
       (\<exists>v. TokenValidator cfg token = (Some v, None) \<and> \<not> Valid v)) \<longrightarrow>
      (\<exists>body. outcome (RemoteServiceAuthMiddleware cfg c cache t1 t2 t3) =
         Done (Status StatusUnauthorized body)) \<and>
      cache_after (RemoteServiceAuthMiddleware cfg c cache t1 t2 t3) = cache \<and>
      trace (RemoteServiceAuthMiddleware cfg c cache t1 t2 t3) =
        [CacheLookup token, RemoteValidate token]) \<and>
   (CacheStore tok \<in> set (trace (validateGRPCToken ctx gcfg cache t1 t2 t3)) \<longrightarrow>
      (\<exists>v. grpc_TokenValidator gcfg tok = (Some v, None) \<and> Valid v)) \<and>
   ((\<forall>tok'. CacheStore tok' \<notin> set (trace (validateGRPCToken ctx gcfg cache t1 t2 t3))) \<longrightarrow>
      cache_after (validateGRPCToken ctx gcfg cache t1 t2 t3) = cache) \<and>
   (incoming_md ctx = Some md \<and> md_Get md ''authorization'' = (''Bearer '' @ token) # rest \<and>
      grpcTokenCache_get cache t1 token = None \<and>
      (snd (grpc_TokenValidator gcfg token) \<noteq> None \<or>
       (\<exists>v. grpc_TokenValidator gcfg token = (Some v, None) \<and> \<not> Valid v)) \<longrightarrow>
      (\<exists>msg. outcome (validateGRPCToken ctx gcfg cache t1 t2 t3) =
         Done (Inl (StatusError Unauthenticated msg))) \<and>
      cache_after (validateGRPCToken ctx gcfg cache t1 t2 t3) = cache \<and>
      trace (validateGRPCToken ctx gcfg cache t1 t2 t3) =
        [CacheLookup token, RemoteValidate token])"
proof -
  have h1: "CacheStore tok \<in> set (trace (RemoteServiceAuthMiddleware cfg c cache t1 t2 t3)) \<longrightarrow>
      (\<exists>v. TokenValidator cfg tok = (Some v, None) \<and> Valid v)"
    by (simp add: RemoteServiceAuthMiddleware_def Let_def
        split: option.splits prod.splits if_splits)
  have h2: "(\<forall>tok'. CacheStore tok' \<notin> set (trace (RemoteServiceAuthMiddleware cfg c cache t1 t2 t3))) \<longrightarrow>
      cache_after (RemoteServiceAuthMiddleware cfg c cache t1 t2 t3) = cache"
    by (simp add: RemoteServiceAuthMiddleware_def Let_def
        split: option.splits prod.splits if_splits)
  have h3: "Enabled cfg \<and> \<not> (\<exists>path \<in> set (SkipPaths cfg). HasPrefix (Path c) path) \<and>
      fiber_Get c ''Authorization'' = ''Bearer '' @ token \<and>
      TokenValidationCache_get cache t1 token = None \<and>
      (snd (TokenValidator cfg token) \<noteq> None \<or>
       (\<exists>v. TokenValidator cfg token = (Some v, None) \<and> \<not> Valid v)) \<longrightarrow>
      (\<exists>body. outcome (RemoteServiceAuthMiddleware cfg c cache t1 t2 t3) =
         Done (Status StatusUnauthorized body)) \<and>
      cache_after (RemoteServiceAuthMiddleware cfg c cache t1 t2 t3) = cache \<and>
      trace (RemoteServiceAuthMiddleware cfg c cache t1 t2 t3) =
        [CacheLookup token, RemoteValidate token]"
    by (auto simp: RemoteServiceAuthMiddleware_def Let_def HasPrefix_def
        split: option.splits prod.splits)
  have g1: "CacheStore tok \<in> set (trace (validateGRPCToken ctx gcfg cache t1 t2 t3)) \<longrightarrow>
      (\<exists>v. grpc_TokenValidator gcfg tok = (Some v, None) \<and> Valid v)"
    by (simp add: validateGRPCToken_def Let_def split: option.splits prod.splits if_splits)
  have g2: "(\<forall>tok'. CacheStore tok' \<notin> set (trace (validateGRPCToken ctx gcfg cache t1 t2 t3))) \<longrightarrow>
      cache_after (validateGRPCToken ctx gcfg cache t1 t2 t3) = cache"
    by (simp add: validateGRPCToken_def Let_def split: option.splits prod.splits if_splits)
  have g3: "incoming_md ctx = Some md \<and>
      md_Get md ''authorization'' = (''Bearer '' @ token) # rest \<and>
      grpcTokenCache_get cache t1 token = None \<and>
      (snd (grpc_TokenValidator gcfg token) \<noteq> None \<or>
       (\<exists>v. grpc_TokenValidator gcfg token = (Some v, None) \<and> \<not> Valid v)) \<longrightarrow>
      (\<exists>msg. outcome (validateGRPCToken ctx gcfg cache t1 t2 t3) =
         Done (Inl (StatusError Unauthenticated msg))) \<and>
      cache_after (validateGRPCToken ctx gcfg cache t1 t2 t3) = cache \<and>
      trace (validateGRPCToken ctx gcfg cache t1 t2 t3) =
        [CacheLookup token, RemoteValidate token]"
    by (auto simp: validateGRPCToken_def Let_def TrimPrefix_def HasPrefix_def
        split: option.splits prod.splits)
  from h1 h2 h3 g1 g2 g3 show ?thesis by blast
qed

text \<open>
  The sample service again: the revoked token and the token the validator cannot check
  are both rejected with the cache left empty, in both paths.
\<close>

theorem failed_validation_not_cached_witness:
  "cache_after (RemoteServiceAuthMiddleware sample_cfg (sample_request ''Bearer revoked'')
       Map.empty 10 10 10) = Map.empty \<and>
   trace (RemoteServiceAuthMiddleware sample_cfg (sample_request ''Bearer revoked'')
       Map.empty 10 10 10) = [CacheLookup ''revoked'', RemoteValidate ''revoked''] \<and>
   cache_after (validateGRPCToken (sample_ctx ''Bearer other'') sample_grpc_cfg
       Map.empty 10 10 10) = Map.empty \<and>
   trace (validateGRPCToken (sample_ctx ''Bearer other'') sample_grpc_cfg
       Map.empty 10 10 10) = [CacheLookup ''other'', RemoteValidate ''other'']"
proof -
  have en: "Enabled sample_cfg"
    and sk: "\<not> (\<exists>path \<in> set (SkipPaths sample_cfg). HasPrefix (Path (sample_request h)) path)"
    for h
    by (simp_all add: sample_cfg_def sample_request_def HasPrefix_def)
  have hdr: "fiber_Get (sample_request ''Bearer revoked'') ''Authorization'' = ''Bearer '' @ ''revoked''"
    by (simp add: sample_request_def fiber_Get_def)
  have miss: "TokenValidationCache_get Map.empty 10 ''revoked'' = None"
    "grpcTokenCache_get Map.empty 10 ''other'' = None"
    by (simp_all add: TokenValidationCache_get_def grpcTokenCache_get_def)
  have inv: "\<exists>v. TokenValidator sample_cfg ''revoked'' = (Some v, None) \<and> \<not> Valid v"
    by (simp add: sample_cfg_def sample_validator_def sample_result_def)
  have err: "snd (grpc_TokenValidator sample_grpc_cfg ''other'') \<noteq> None"
    by (simp add: sample_grpc_cfg_def sample_validator_def)
  have md: "incoming_md (sample_ctx ''Bearer other'') = Some [''authorization'' \<mapsto> [''Bearer other'']]
      \<and> md_Get [''authorization'' \<mapsto> [''Bearer other'']] ''authorization'' = (''Bearer '' @ ''other'') # []"
    by (simp add: sample_ctx_def md_Get_def)
  have a: "cache_after (RemoteServiceAuthMiddleware sample_cfg (sample_request ''Bearer revoked'')
       Map.empty 10 10 10) = Map.empty \<and>
     trace (RemoteServiceAuthMiddleware sample_cfg (sample_request ''Bearer revoked'')
       Map.empty 10 10 10) = [CacheLookup ''revoked'', RemoteValidate ''revoked'']"
    using failed_validation_not_cached [where cfg = sample_cfg
        and c = "sample_request ''Bearer revoked''" and cache = Map.empty
        and ?t1.0 = 10 and ?t2.0 = 10 and ?t3.0 = 10 and token = "''revoked''"]
      en sk hdr miss(1) inv by blast
  have b: "cache_after (validateGRPCToken (sample_ctx ''Bearer other'') sample_grpc_cfg
       Map.empty 10 10 10) = Map.empty \<and>
     trace (validateGRPCToken (sample_ctx ''Bearer other'') sample_grpc_cfg
       Map.empty 10 10 10) = [CacheLookup ''other'', RemoteValidate ''other'']"
    using failed_validation_not_cached [where ctx = "sample_ctx ''Bearer other''"
        and gcfg = sample_grpc_cfg and cache = Map.empty
        and ?t1.0 = 10 and ?t2.0 = 10 and ?t3.0 = 10 and token = "''other''"
        and md = "[''authorization'' \<mapsto> [''Bearer other'']]" and rest = "[]"]
      md miss(2) err by blast
  from a b show ?thesis by simp
qed

text \<open>
  C2. With \<open>MaxRetries = k\<close>, \<open>k \<ge> 1\<close>, when every attempt ends in a retryable failure
  and the context does not fire during the waits, both retry loops make exactly
  \<open>k + 1\<close> attempts and return the service-unavailable error that carries the name of
  the service and the error of the last attempt.
\<close>

theorem retry_budget_respected:
  assumes "1 \<le> k"
    and "MaxRetries (retryConfig c) = k" and "grpc_MaxRetries cfg = k"
    and "\<forall>i. retryable_failure c (doRequest i) \<noteq> None"
    and "\<forall>i. grpc_retryable cfg (invoker i)"
    and "\<forall>i. ctxDone i = None"
  shows "attempts (Do c doRequest ctxDone) = nat k + 1 \<and>
         returned (Do c doRequest ctxDone) =
           Done (Inl (ServiceUnavailableError (serviceName c)
             (the (retryable_failure c (doRequest k))))) \<and>
         attempts (createRetryInterceptor name cfg invoker ctxDone) = nat k + 1 \<and>
         returned (createRetryInterceptor name cfg invoker ctxDone) =
           Done (Some (GrpcServiceUnavailableError name (invoker k)))"
proof -
  have h: "attempts (Do_loop c doRequest ctxDone 0 None) = nat (MaxRetries (retryConfig c) + 1 - 0) \<and>
      returned (Do_loop c doRequest ctxDone 0 None) =
        (if 0 \<le> MaxRetries (retryConfig c)
         then Done (Inl (ServiceUnavailableError (serviceName c)
                (the (retryable_failure c (doRequest (MaxRetries (retryConfig c)))))))
         else case None of None \<Rightarrow> Panic
              | Some err \<Rightarrow> Done (Inl (ServiceUnavailableError (serviceName c) err)))"
    using assms(4,6) by (intro Do_loop_exhausted) simp_all
  have g: "attempts (retryInterceptor_loop name cfg invoker ctxDone 0 None) =
        nat (grpc_MaxRetries cfg + 1 - 0) \<and>
      returned (retryInterceptor_loop name cfg invoker ctxDone 0 None) =
        Done (Some (GrpcServiceUnavailableError name
          (if 0 \<le> grpc_MaxRetries cfg then invoker (grpc_MaxRetries cfg) else None)))"
    using assms(5,6) by (intro retryInterceptor_loop_exhausted) simp_all
  from h g assms(1,2,3) show ?thesis
    by (simp add: Do_def createRetryInterceptor_def nat_add_distrib)
qed

text \<open>
  The policy of the specification's scenario (two retries, 100 ms, factor 2, retryable
  \<open>503\<close> or \<^verbatim>\<open>Unavailable\<close>) against a service that always fails: three attempts, then
  the service-unavailable error around the last failure.
\<close>

theorem retry_budget_respected_witness:
  "attempts (Do sample_client always_503 never_done) = 3 \<and>
   returned (Do sample_client always_503 never_done) =
     Done (Inl (ServiceUnavailableError ''notifier'' (HTTPStatusError 503 ''busy''))) \<and>
   attempts (createRetryInterceptor ''notifier'' sample_grpc_retry always_unavailable never_done) = 3 \<and>
   returned (createRetryInterceptor ''notifier'' sample_grpc_retry always_unavailable never_done) =
     Done (Some (GrpcServiceUnavailableError ''notifier'' (Some (GrpcStatus Unavailable ''down''))))"
proof -
  have hyps: "(1::int) \<le> 2"
    "MaxRetries (retryConfig sample_client) = 2" "grpc_MaxRetries sample_grpc_retry = 2"
    "\<forall>i. retryable_failure sample_client (always_503 i) \<noteq> None"
    "\<forall>i. grpc_retryable sample_grpc_retry (always_unavailable i)"
    "\<forall>i. never_done i = None"
    by (simp_all add: retryable_failure_def shouldRetry_def sample_client_def always_503_def
        grpc_retryable_def sample_grpc_retry_def always_unavailable_def never_done_def)
  have vals: "the (retryable_failure sample_client (always_503 2)) = HTTPStatusError 503 ''busy''"
    "serviceName sample_client = ''notifier''"
    "always_unavailable 2 = Some (GrpcStatus Unavailable ''down'')"
    by (simp_all add: retryable_failure_def shouldRetry_def sample_client_def always_503_def
        always_unavailable_def)
  from retry_budget_respected [OF hyps, of "''notifier''"] vals
  show ?thesis by simp
qed

text \<open>
  C3. When the first attempt comes back with an HTTP status that is not in
  \<^verbatim>\<open>RetryableErrors\<close>, or with a gRPC error whose code is not in \<^verbatim>\<open>RetryableCodes\<close>,
  the loop makes that one attempt and hands the caller what the attempt returned: the
  response with its status (and a nil error) from \<^verbatim>\<open>Do\<close>, the error itself from the
  interceptor; never the service-unavailable error.
\<close>

theorem non_retryable_short_circuit:
  "(0 \<le> MaxRetries (retryConfig c) \<and> doRequest 0 = Inr resp \<and>
      StatusCode resp \<notin> set (RetryableErrors (retryConfig c)) \<longrightarrow>
      Do c doRequest ctxDone = \<lparr>returned = Done (Inr resp), events = [Attempt 0]\<rparr>) \<and>
   (0 \<le> grpc_MaxRetries cfg \<and> invoker 0 = Some err \<and>
      status_Code err \<notin> set (RetryableCodes cfg) \<longrightarrow>
      createRetryInterceptor name cfg invoker ctxDone =
        \<lparr>returned = Done (Some err), events = [Attempt 0]\<rparr>)"
proof -
  have h: "0 \<le> MaxRetries (retryConfig c) \<and> doRequest 0 = Inr resp \<and>
      StatusCode resp \<notin> set (RetryableErrors (retryConfig c)) \<longrightarrow>
      Do c doRequest ctxDone = \<lparr>returned = Done (Inr resp), events = [Attempt 0]\<rparr>"
    unfolding Do_def by (subst Do_loop.simps) (simp add: shouldRetry_iff)
  have g: "0 \<le> grpc_MaxRetries cfg \<and> invoker 0 = Some err \<and>
      status_Code err \<notin> set (RetryableCodes cfg) \<longrightarrow>
      createRetryInterceptor name cfg invoker ctxDone =
        \<lparr>returned = Done (Some err), events = [Attempt 0]\<rparr>"
    unfolding createRetryInterceptor_def
    by (subst retryInterceptor_loop.simps) (simp add: shouldRetryCode_iff)
  from h g show ?thesis by blast
qed

text \<open>
  The sample policy against a service that answers 404 (HTTP) or \<^verbatim>\<open>NotFound\<close> (gRPC).
\<close>

theorem non_retryable_short_circuit_witness:
  "Do sample_client (\<lambda>i. Inr \<lparr>StatusCode = 404, Body = ''no such user''\<rparr>) never_done =
     \<lparr>returned = Done (Inr \<lparr>StatusCode = 404, Body = ''no such user''\<rparr>), events = [Attempt 0]\<rparr> \<and>
   createRetryInterceptor ''notifier'' sample_grpc_retry
       (\<lambda>i. Some (GrpcStatus NotFound ''no such user'')) never_done =
     \<lparr>returned = Done (Some (GrpcStatus NotFound ''no such user'')), events = [Attempt 0]\<rparr>"
  using non_retryable_short_circuit [of sample_client
      "\<lambda>i. Inr \<lparr>StatusCode = 404, Body = ''no such user''\<rparr>"
      "\<lparr>StatusCode = 404, Body = ''no such user''\<rparr>" never_done sample_grpc_retry
      "\<lambda>i. Some (GrpcStatus NotFound ''no such user'')" "GrpcStatus NotFound ''no such user''"
      "''notifier''"]
  by (simp add: sample_client_def sample_grpc_retry_def)

text \<open>
  C5. When the context fires during the wait before attempt \<open>n\<close> (after \<open>n\<close>
  attempts, indices \<open>0\<close> to \<open>n - 1\<close>, that all failed retryably, and not during an
  earlier wait), both loops return the error of the context, not the service-unavailable
  error; the wait is the last thing they did, and attempt \<open>n\<close> is never made.
\<close>

theorem cancellation_during_wait:
  assumes "1 \<le> n" and "ctxDone n = Some e" and "\<forall>i. 0 < i \<and> i < n \<longrightarrow> ctxDone i = None"
  shows "(n \<le> MaxRetries (retryConfig c) \<and>
            (\<forall>i. 0 \<le> i \<and> i < n \<longrightarrow> retryable_failure c (doRequest i) \<noteq> None) \<longrightarrow>
          returned (Do c doRequest ctxDone) = Done (Inl (ContextError e)) \<and>
          attempts (Do c doRequest ctxDone) = nat n \<and>
          last (events (Do c doRequest ctxDone)) = Wait (calculateBackoff c n)) \<and>
         (n \<le> grpc_MaxRetries cfg \<and>
            (\<forall>i. 0 \<le> i \<and> i < n \<longrightarrow> grpc_retryable cfg (invoker i)) \<longrightarrow>
          returned (createRetryInterceptor name cfg invoker ctxDone) =
            Done (Some (GrpcContextError e)) \<and>
          attempts (createRetryInterceptor name cfg invoker ctxDone) = nat n \<and>
          last (events (createRetryInterceptor name cfg invoker ctxDone)) =
            Wait (grpc_calculateBackoff cfg n))"
proof -
  have h: "returned (Do c doRequest ctxDone) = Done (Inl (ContextError e)) \<and>
      attempts (Do c doRequest ctxDone) = nat n \<and>
      last (events (Do c doRequest ctxDone)) = Wait (calculateBackoff c n)"
    if "n \<le> MaxRetries (retryConfig c)"
      and "\<forall>i. 0 \<le> i \<and> i < n \<longrightarrow> retryable_failure c (doRequest i) \<noteq> None"
    using Do_loop_cancelled [of 0 n c doRequest ctxDone e None] assms that
    by (simp add: Do_def)
  have g: "returned (createRetryInterceptor name cfg invoker ctxDone) =
        Done (Some (GrpcContextError e)) \<and>
      attempts (createRetryInterceptor name cfg invoker ctxDone) = nat n \<and>
      last (events (createRetryInterceptor name cfg invoker ctxDone)) =
        Wait (grpc_calculateBackoff cfg n)"
    if "n \<le> grpc_MaxRetries cfg" and "\<forall>i. 0 \<le> i \<and> i < n \<longrightarrow> grpc_retryable cfg (invoker i)"
    using retryInterceptor_loop_cancelled [of 0 n cfg invoker ctxDone e name None] assms that
    by (simp add: createRetryInterceptor_def)
  from h g show ?thesis by blast
qed

text \<open>
  The sample policy against a service that always fails, with a deadline that expires
  during the second wait: two attempts, then the error of the context.
\<close>

theorem cancellation_during_wait_witness:
  "returned (Do sample_client always_503 (\<lambda>i. if i = 2 then Some ContextDeadlineExceeded else None))
     = Done (Inl (ContextError ContextDeadlineExceeded)) \<and>
   attempts (Do sample_client always_503 (\<lambda>i. if i = 2 then Some ContextDeadlineExceeded else None))
     = 2 \<and>
   returned (createRetryInterceptor ''notifier'' sample_grpc_retry always_unavailable
       (\<lambda>i. if i = 2 then Some ContextDeadlineExceeded else None))
     = Done (Some (GrpcContextError ContextDeadlineExceeded)) \<and>
   attempts (createRetryInterceptor ''notifier'' sample_grpc_retry always_unavailable
       (\<lambda>i. if i = 2 then Some ContextDeadlineExceeded else None)) = 2"
proof -
  have a: "(1::int) \<le> 2"
    and b: "(\<lambda>i::int. if i = 2 then Some ContextDeadlineExceeded else None) 2
        = Some ContextDeadlineExceeded"
    and c: "\<forall>i::int. 0 < i \<and> i < 2 \<longrightarrow>
        (\<lambda>i::int. if i = 2 then Some ContextDeadlineExceeded else None) i = None"
    by simp_all
  have d: "2 \<le> MaxRetries (retryConfig sample_client) \<and>
      (\<forall>i. 0 \<le> i \<and> i < 2 \<longrightarrow> retryable_failure sample_client (always_503 i) \<noteq> None)"
    and e: "2 \<le> grpc_MaxRetries sample_grpc_retry \<and>
      (\<forall>i. 0 \<le> i \<and> i < 2 \<longrightarrow> grpc_retryable sample_grpc_retry (always_unavailable i))"
    by (simp_all add: retryable_failure_def shouldRetry_def sample_client_def always_503_def
        grpc_retryable_def sample_grpc_retry_def always_unavailable_def)
  from cancellation_during_wait [OF a b c, of sample_client always_503 sample_grpc_retry
      always_unavailable "''notifier''"] d e
  show ?thesis by simp
qed

text \<open>
  C10. A configuration whose retry policy has \<open>MaxRetries = 0\<close> gets, from the
  constructor of either client, the whole default policy (3 retries, 500 ms, 5 s, factor
  2, the default retryable set) in place of the policy supplied. So no client that a
  constructor returns has \<open>MaxRetries = 0\<close>, and against a service that always fails
  retryably (with a context that never fires) no such client makes exactly one attempt.
\<close>

theorem zero_retries_replaced_by_default:
  "(MaxRetries (RetryConfig cfg) = 0 \<longrightarrow> retryConfig (NewClient cfg) = DefaultRetryConfig) \<and>
   (grpc_MaxRetries (grpc_RetryConfig gcfg) = 0 \<and> grpc_NewClient gcfg dial = Inr cl \<longrightarrow>
      grpc_retryConfig cl = grpc_DefaultRetryConfig) \<and>
   DefaultRetryConfig =
     \<lparr>MaxRetries = 3, InitialDelay = 500000000, MaxDelay = 5000000000, BackoffFactor = Fin 2,
      RetryableErrors = [408, 429, 500, 502, 503, 504]\<rparr> \<and>
   grpc_DefaultRetryConfig =
     \<lparr>grpc_MaxRetries = 3, grpc_InitialDelay = 500000000, grpc_MaxDelay = 5000000000,
      grpc_BackoffFactor = Fin 2,
      RetryableCodes = [Unavailable, ResourceExhausted, DeadlineExceeded, Internal]\<rparr> \<and>
   MaxRetries (retryConfig (NewClient cfg)) \<noteq> 0 \<and>
   (grpc_NewClient gcfg dial = Inr cl \<longrightarrow> grpc_MaxRetries (grpc_retryConfig cl) \<noteq> 0) \<and>
   ((\<forall>i. retryable_failure (NewClient cfg) (doRequest i) \<noteq> None) \<and> (\<forall>i. ctxDone i = None) \<longrightarrow>
      attempts (Do (NewClient cfg) doRequest ctxDone) \<noteq> 1) \<and>
   (grpc_NewClient gcfg dial = Inr cl \<and>
      (\<forall>i. grpc_retryable (grpc_retryConfig cl) (invoker i)) \<and> (\<forall>i. ctxDone i = None) \<longrightarrow>
      attempts (createRetryInterceptor (grpc_serviceName cl) (grpc_retryConfig cl) invoker ctxDone)
        \<noteq> 1)"
proof -
  have d1: "DefaultRetryConfig =
     \<lparr>MaxRetries = 3, InitialDelay = 500000000, MaxDelay = 5000000000, BackoffFactor = Fin 2,
      RetryableErrors = [408, 429, 500, 502, 503, 504]\<rparr>"
    by (simp add: DefaultRetryConfig_def Second_def Millisecond_def)
  have d2: "grpc_DefaultRetryConfig =
     \<lparr>grpc_MaxRetries = 3, grpc_InitialDelay = 500000000, grpc_MaxDelay = 5000000000,
      grpc_BackoffFactor = Fin 2,
      RetryableCodes = [Unavailable, ResourceExhausted, DeadlineExceeded, Internal]\<rparr>"
    by (simp add: grpc_DefaultRetryConfig_def Second_def Millisecond_def)
  have h1: "MaxRetries (RetryConfig cfg) = 0 \<longrightarrow> retryConfig (NewClient cfg) = DefaultRetryConfig"
    by (simp add: NewClient_def Let_def)
  have g1: "grpc_MaxRetries (grpc_RetryConfig gcfg) = 0 \<and> grpc_NewClient gcfg dial = Inr cl \<longrightarrow>
      grpc_retryConfig cl = grpc_DefaultRetryConfig"
    by (auto simp: grpc_NewClient_def Let_def split: option.splits)
  have h2: "MaxRetries (retryConfig (NewClient cfg)) \<noteq> 0"
    by (simp add: NewClient_def Let_def DefaultRetryConfig_def)
  have g2: "grpc_NewClient gcfg dial = Inr cl \<longrightarrow> grpc_MaxRetries (grpc_retryConfig cl) \<noteq> 0"
    by (auto simp: grpc_NewClient_def Let_def grpc_DefaultRetryConfig_def split: option.splits)
  have h3: "attempts (Do (NewClient cfg) doRequest ctxDone) \<noteq> 1"
    if "\<forall>i. retryable_failure (NewClient cfg) (doRequest i) \<noteq> None" and "\<forall>i. ctxDone i = None"
  proof -
    have "attempts (Do_loop (NewClient cfg) doRequest ctxDone 0 None) =
        nat (MaxRetries (retryConfig (NewClient cfg)) + 1 - 0)"
      using Do_loop_exhausted [of 0 "NewClient cfg" doRequest ctxDone None] that by simp
    with h2 show ?thesis by (simp add: Do_def nat_eq_iff)
  qed
  have g3: "attempts (createRetryInterceptor (grpc_serviceName cl) (grpc_retryConfig cl) invoker ctxDone)
        \<noteq> 1"
    if "grpc_NewClient gcfg dial = Inr cl"
      and "\<forall>i. grpc_retryable (grpc_retryConfig cl) (invoker i)" and "\<forall>i. ctxDone i = None"
  proof -
    have "attempts (retryInterceptor_loop (grpc_serviceName cl) (grpc_retryConfig cl) invoker
          ctxDone 0 None) = nat (grpc_MaxRetries (grpc_retryConfig cl) + 1 - 0)"
      using retryInterceptor_loop_exhausted [of 0 "grpc_retryConfig cl" invoker ctxDone
          "grpc_serviceName cl" None] that by simp
    with g2 that(1) show ?thesis by (simp add: createRetryInterceptor_def nat_eq_iff)
  qed
  from d1 d2 h1 g1 h2 g2 h3 g3 show ?thesis by blast
qed

text \<open>
  A configuration that asks for no retries, a one-second delay and only \<open>503\<close> as
  retryable: both constructors return a client with the default policy, and the HTTP
  client makes four attempts against a service that always answers \<open>503\<close>.
\<close>

theorem zero_retries_replaced_by_default_witness:
  "retryConfig (NewClient no_retry_cfg) = DefaultRetryConfig \<and>
   grpc_NewClient no_retry_grpc_cfg None =
     Inr \<lparr>grpc_retryConfig = grpc_DefaultRetryConfig, target = ''notifier:9090'',
          grpc_serviceName = ''notifier''\<rparr> \<and>
   attempts (Do (NewClient no_retry_cfg) always_503 never_done) \<noteq> 1 \<and>
   attempts (createRetryInterceptor ''notifier'' grpc_DefaultRetryConfig always_unavailable
     never_done) \<noteq> 1"
proof -
  have z: "MaxRetries (RetryConfig no_retry_cfg) = 0"
    "grpc_MaxRetries (grpc_RetryConfig no_retry_grpc_cfg) = 0"
    by (simp_all add: no_retry_cfg_def no_retry_grpc_cfg_def)
  have cl: "grpc_NewClient no_retry_grpc_cfg None =
     Inr \<lparr>grpc_retryConfig = grpc_DefaultRetryConfig, target = ''notifier:9090'',
          grpc_serviceName = ''notifier''\<rparr>"
    by (simp add: grpc_NewClient_def no_retry_grpc_cfg_def Let_def)
  have f: "\<forall>i. retryable_failure (NewClient no_retry_cfg) (always_503 i) \<noteq> None"
    by (simp add: retryable_failure_def shouldRetry_def NewClient_def no_retry_cfg_def Let_def
        DefaultRetryConfig_def always_503_def)
  have g: "\<forall>i. grpc_retryable (grpc_retryConfig \<lparr>grpc_retryConfig = grpc_DefaultRetryConfig,
        target = ''notifier:9090'', grpc_serviceName = ''notifier''\<rparr>) (always_unavailable i)"
    by (simp add: grpc_retryable_def grpc_DefaultRetryConfig_def always_unavailable_def)
  have n: "\<forall>i. never_done i = None" by (simp add: never_done_def)
  from zero_retries_replaced_by_default [of no_retry_cfg no_retry_grpc_cfg None
      "\<lparr>grpc_retryConfig = grpc_DefaultRetryConfig, target = ''notifier:9090'',
        grpc_serviceName = ''notifier''\<rparr>" always_503 never_done always_unavailable]
    z cl f g n
  show ?thesis by simp
qed

text \<open>
  C1 says that concurrent first calls of \<^verbatim>\<open>GetLimiter\<close> for one key all get the same
  bucket. The code gives up the lock between finding no entry and calling \<^verbatim>\<open>AddIP\<close>:
  when two goroutines both look before either adds, each allocates a bucket of its own,
  the first gets bucket 0, the second bucket 1, and the table keeps the second. When the
  first call finishes before the second starts, both get bucket 0.
\<close>

theorem GetLimiter_race:
  "map pc (snd (run [(0, 100), (1, 101), (0, 102), (1, 103)]
      (NewIPRateLimiter (Fin 10) 20, calls [''10.0.0.1'', ''10.0.0.1''])))
     = [Returned 0, Returned 1] \<and>
   map_option limiter (ips (fst (run [(0, 100), (1, 101), (0, 102), (1, 103)]
      (NewIPRateLimiter (Fin 10) 20, calls [''10.0.0.1'', ''10.0.0.1'']))) ''10.0.0.1'')
     = Some 1 \<and>
   map pc (snd (run [(0, 100), (0, 101), (1, 102), (1, 103)]
      (NewIPRateLimiter (Fin 10) 20, calls [''10.0.0.1'', ''10.0.0.1''])))
     = [Returned 0, Returned 0]"
  by (simp add: calls_def NewIPRateLimiter_def NewIPRateLimiterWithTTL_def step_def
      GetLimiter_locked_def AddIP_def Let_def)

text \<open>
  C4, as stated, calls a policy valid when its factor is above 1 and its maximal delay
  is not below its initial delay, and promises for each of them a first delay equal to
  the initial delay and delays that do not decrease. A policy with the initial delay
  \<open>-1 s\<close>, the maximal delay \<open>5 s\<close> and the factor 2 is valid in that sense, and its
  delays are \<open>-1 s\<close>, then \<open>-2 s\<close>. A policy whose initial and maximal delay are both
  \<open>2\<^sup>5\<^sup>3 + 1\<close> nanoseconds is valid too, and its first delay is \<open>2\<^sup>5\<^sup>3\<close>
  nanoseconds: the conversion to \<^verbatim>\<open>float64\<close> rounds.
\<close>

theorem backoff_counterexample:
  "BackoffFactor (retryConfig negative_delay_client) = Fin 2 \<and>
   InitialDelay (retryConfig negative_delay_client) \<le> MaxDelay (retryConfig negative_delay_client) \<and>
   calculateBackoff negative_delay_client 1 = Some (- 1000000000) \<and>
   calculateBackoff negative_delay_client 2 = Some (- 2000000000) \<and>
   BackoffFactor (retryConfig long_delay_client) = Fin 2 \<and>
   InitialDelay (retryConfig long_delay_client) = 9007199254740993 \<and>
   MaxDelay (retryConfig long_delay_client) = 9007199254740993 \<and>
   calculateBackoff long_delay_client 1 = Some 9007199254740992"
proof -
  have cfg: "BackoffFactor (retryConfig negative_delay_client) = Fin 2"
    "InitialDelay (retryConfig negative_delay_client) = - 1000000000"
    "MaxDelay (retryConfig negative_delay_client) = 5000000000"
    "BackoffFactor (retryConfig long_delay_client) = Fin 2"
    "InitialDelay (retryConfig long_delay_client) = 9007199254740993"
    "MaxDelay (retryConfig long_delay_client) = 9007199254740993"
    by (simp_all add: negative_delay_client_def long_delay_client_def Second_def Millisecond_def)
  have p1: "pow (Fin 2) (float64_of_int 0) = Some (Fin 1)"
    using pow_of_attempt [of 1 "Fin 2"] by simp
  have rr: "round_f64 2 = Fin 2"
    using round_f64_of_int [of 2] by simp
  have p2: "pow (Fin 2) (float64_of_int 1) = Some (Fin 2)"
    using pow_of_attempt [of 2 "Fin 2"] by (simp add: rr)
  have fi: "float64_of_int (- 1000000000) = Fin (- 1000000000)"
    using float64_of_int_exact [of "- 1000000000"] by simp
  have fm: "float64_of_int 5000000000 = Fin 5000000000"
    using float64_of_int_exact [of 5000000000] by simp
  have r1: "round_f64 (- 1000000000) = Fin (- 1000000000)"
    using round_f64_of_int [of "- 1000000000"] by simp
  have r2: "round_f64 (- 2000000000) = Fin (- 2000000000)"
    using round_f64_of_int [of "- 2000000000"] by simp
  have n1: "calculateBackoff negative_delay_client 1 = Some (- 1000000000)"
    by (simp add: calculateBackoff_backoff cfg backoff_def p1 fi fm r1 clamp_delay_def
        int64_of_float_def)
  have n2: "calculateBackoff negative_delay_client 2 = Some (- 2000000000)"
    by (simp add: calculateBackoff_backoff cfg backoff_def p2 fi fm r2 clamp_delay_def
        int64_of_float_def)
  have il: "ilog2 9007199254740993 = 53"
    by (rule ilog2_unique) (simp_all add: pow2_def)
  have fl0: "\<lfloor>9007199254740993 / 2 :: rat\<rfloor> = 4503599627370496"
    by (rule floor_unique) simp_all
  have rn: "rne (9007199254740993 / 2) = 4503599627370496"
    by (simp add: rne_def Let_def fl0)
  have rp: "round_pos 9007199254740993 = 9007199254740992"
    using round_pos_normal [of 9007199254740993] by (simp add: il pow2_def rn)
  have fl: "float64_of_int 9007199254740993 = Fin 9007199254740992"
    using round_f64_ge_1 [of 9007199254740993] by (simp add: float64_of_int_def rp pow2_def)
  have r3: "round_f64 9007199254740992 = Fin 9007199254740992"
    using round_f64_of_int [of 9007199254740992] by simp
  have l1: "calculateBackoff long_delay_client 1 = Some 9007199254740992"
    by (simp add: calculateBackoff_backoff cfg backoff_def p1 fl r3 clamp_delay_def
        int64_of_float_def)
  from cfg n1 n2 l1 show ?thesis by simp
qed

text \<open>
  C4, amended. For a policy with a factor above 1 and
  \<open>0 \<le> initialDelay \<le> maxDelay \<le> 2\<^sup>5\<^sup>3\<close> nanoseconds, and an attempt \<open>n\<close> with
  \<open>1 \<le> n < 2\<^sup>5\<^sup>3\<close> (for a zero initial delay: as long as the \<^verbatim>\<open>float64\<close> power
  \<open>factor\<^sup>n\<close> has not overflowed to \<open>+Inf\<close>), both \<^verbatim>\<open>calculateBackoff\<close> functions
  return the same delays and
  \<^item> the first delay is the initial delay exactly;
  \<^item> the delay of attempt \<open>n\<close> is not negative, not above that of attempt \<open>n + 1\<close>,
    and neither is above the maximal delay;
  \<^item> the delay is the \<^verbatim>\<open>float64\<close> product of the initial delay and the power (made
    by \<open>n - 1\<close> rounded multiplications), cut to whole nanoseconds, or the maximal delay
    when the product is above it;
  \<^item> with the factor 2 and a positive initial delay that is exactly
    \<open>min (initialDelay \<times> 2\<^sup>n\<^sup>-\<^sup>1) maxDelay\<close>.
\<close>

theorem backoff_monotone_clamped:
  assumes "BackoffFactor (retryConfig c) = Fin q" and "grpc_BackoffFactor cfg = Fin q"
    and "1 < q"
    and "InitialDelay (retryConfig c) = i" and "grpc_InitialDelay cfg = i"
    and "MaxDelay (retryConfig c) = m" and "grpc_MaxDelay cfg = m"
    and "0 \<le> i" and "i \<le> m" and "m \<le> 2 ^ 53"
    and "1 \<le> n" and "n < 2 ^ 53"
    and "i = 0 \<longrightarrow> pow_loop (Fin q) (nat n) \<noteq> PInf"
  shows "calculateBackoff c 1 = Some i \<and>
         (\<exists>d d'. calculateBackoff c n = Some d \<and> calculateBackoff c (n + 1) = Some d' \<and>
            0 \<le> d \<and> d \<le> d' \<and> d' \<le> m) \<and>
         calculateBackoff c n =
           clamp_delay m (fmul (Fin (of_int i)) (pow_loop (Fin q) (nat (n - 1)))) \<and>
         (0 < i \<and> q = 2 \<longrightarrow> calculateBackoff c n = Some (min (i * 2 ^ nat (n - 1)) m)) \<and>
         grpc_calculateBackoff cfg 1 = calculateBackoff c 1 \<and>
         grpc_calculateBackoff cfg n = calculateBackoff c n \<and>
         grpc_calculateBackoff cfg (n + 1) = calculateBackoff c (n + 1)"
proof -
  have h: "calculateBackoff c a = backoff i m (Fin q) a"
    and g: "grpc_calculateBackoff cfg a = backoff i m (Fin q) a" for a
    using assms(1,2,4,5,6,7) by (simp_all add: calculateBackoff_backoff grpc_calculateBackoff_backoff)
  from assms(8,9,10) have ai: "\<bar>i\<bar> \<le> 2 ^ 53" by simp
  have first: "backoff i m (Fin q) 1 = Some i"
    by (rule backoff_first [OF assms(8,9,10)])
  have grows: "\<exists>d d'. backoff i m (Fin q) n = Some d \<and> backoff i m (Fin q) (n + 1) = Some d' \<and>
      0 \<le> d \<and> d \<le> d' \<and> d' \<le> m"
  proof (cases "i = 0")
    case True
    with assms(13) have "pow_loop (Fin q) (nat n) \<noteq> PInf" by simp
    from backoff_zero [OF assms(3) _ assms(10,11,12) this, of ] assms(8,9) True
    show ?thesis by simp
  next
    case False
    with assms(8) have "1 \<le> i" by simp
    then show ?thesis by (rule backoff_grows [OF assms(3) _ assms(9,10,11,12)])
  qed
  have shape: "backoff i m (Fin q) n =
      clamp_delay m (fmul (Fin (of_int i)) (pow_loop (Fin q) (nat (n - 1))))"
    using assms(11,12) pow_of_attempt [of n "Fin q"] float64_of_int_exact [OF ai]
    by (simp add: backoff_def)
  have two: "backoff i m (Fin q) n = Some (min (i * 2 ^ nat (n - 1)) m)" if "0 < i" and "q = 2"
    using that assms(9,10,11,12) backoff_factor_2 [of i m n] by simp
  have c1: "calculateBackoff c 1 = Some i" by (simp only: h first)
  have c2: "\<exists>d d'. calculateBackoff c n = Some d \<and> calculateBackoff c (n + 1) = Some d' \<and>
      0 \<le> d \<and> d \<le> d' \<and> d' \<le> m"
    using grows by (simp only: h)
  have c3: "calculateBackoff c n =
      clamp_delay m (fmul (Fin (of_int i)) (pow_loop (Fin q) (nat (n - 1))))"
    using shape by (simp only: h)
  have c4: "0 < i \<and> q = 2 \<longrightarrow> calculateBackoff c n = Some (min (i * 2 ^ nat (n - 1)) m)"
    using two by (simp only: h) blast
  have c5: "grpc_calculateBackoff cfg 1 = calculateBackoff c 1"
    "grpc_calculateBackoff cfg n = calculateBackoff c n"
    "grpc_calculateBackoff cfg (n + 1) = calculateBackoff c (n + 1)"
    by (simp_all only: h g)
  from c1 c2 c3 c4 c5 show ?thesis by blast
qed

text \<open>
  The sample policy (100 ms, factor 2, at most 5 s): the delays before the attempts 1, 2
  and 7 are 100 ms, 200 ms and, clamped, 5 s.
\<close>

theorem backoff_monotone_clamped_witness:
  "calculateBackoff sample_client 1 = Some 100000000 \<and>
   calculateBackoff sample_client 2 = Some 200000000 \<and>
   calculateBackoff sample_client 7 = Some 5000000000 \<and>
   grpc_calculateBackoff sample_grpc_retry 2 = Some 200000000"
proof -
  have cfg: "BackoffFactor (retryConfig sample_client) = Fin 2"
    "grpc_BackoffFactor sample_grpc_retry = Fin 2" "(1 :: rat) < 2"
    "InitialDelay (retryConfig sample_client) = 100000000"
    "grpc_InitialDelay sample_grpc_retry = 100000000"
    "MaxDelay (retryConfig sample_client) = 5000000000"
    "grpc_MaxDelay sample_grpc_retry = 5000000000"
    "(0 :: int) \<le> 100000000" "(100000000 :: int) \<le> 5000000000" "(5000000000 :: int) \<le> 2 ^ 53"
    by (simp_all add: sample_client_def sample_grpc_retry_def Second_def Millisecond_def)
  have z: "(100000000 :: int) = 0 \<longrightarrow> pow_loop (Fin 2) (nat k) \<noteq> PInf" for k by simp
  have n2: "(1 :: int) \<le> 2" "(2 :: int) < 2 ^ 53" and n7: "(1 :: int) \<le> 7" "(7 :: int) < 2 ^ 53"
    by simp_all
  note t2 = backoff_monotone_clamped [OF cfg n2 z]
  note t7 = backoff_monotone_clamped [OF cfg n7 z]
  from t2 have a1: "calculateBackoff sample_client 1 = Some 100000000" by blast
  from t2 have "(0 :: int) < 100000000 \<and> (2 :: rat) = 2 \<longrightarrow>
      calculateBackoff sample_client 2 = Some (min (100000000 * 2 ^ nat (2 - 1)) 5000000000)"
    by blast
  then have a2: "calculateBackoff sample_client 2 = Some 200000000" by simp
  from t7 have "(0 :: int) < 100000000 \<and> (2 :: rat) = 2 \<longrightarrow>
      calculateBackoff sample_client 7 = Some (min (100000000 * 2 ^ nat (7 - 1)) 5000000000)"
    by blast
  then have a7: "calculateBackoff sample_client 7 = Some 5000000000" by simp
  from t2 have g2: "grpc_calculateBackoff sample_grpc_retry 2 = calculateBackoff sample_client 2"
    by blast
  from a1 a2 a7 g2 show ?thesis by simp
qed

end
